(* ===== verification/Prelude.thy ===== *)
theory Prelude
  imports Main "HOL-Library.Word" "HOL-Library.AList" "HOL-Library.List_Lexorder"
    "HOL-Library.Char_ord"
begin

text \<open>
  What every component of the development shares: the names of the model's basic types, the
  error values of the program, the lemma collections, and generic facts on lists, association
  lists and bounded queues.

  Go strings are byte sequences; the model uses \<open>string\<close>, whose characters are exactly the
  256 byte values. A Go function that returns \<open>(T, error)\<close> becomes a function into
  \<open>error + T\<close>; one that returns only \<open>error\<close> becomes a function into \<open>error option\<close>.
\<close>

unbundle bit_operations_syntax

named_theorems chan_simps
named_theorems addr_simps
named_theorems frame_simps

type_synonym byte = "8 word"
type_synonym bytes = "8 word list"

section \<open>Error values\<close>

text \<open>
  \<open>Errorf fmt args w\<close> is the error \<open>fmt.Errorf\<close> makes: the format, the values it mentions, and
  the error it wraps with \<open>%w\<close>, if it does. \<open>ErrorsNew\<close> is a sentinel made by \<open>errors.New\<close>,
  \<open>Joined\<close> the result of \<open>errors.Join\<close> or of joining several messages into one, \<open>Environment\<close>
  an error that the operating system or a library returned, and \<open>Panic\<close> a run-time panic.
\<close>

datatype error =
    ErrorsNew string
  | Errorf string "string list" "error option"
  | Joined "error list"
  | Environment string
  | Panic string

text \<open>\<open>errors.Is(err, target)\<close>: the error itself or an error it wraps is the target.\<close>

fun errors_is :: "error \<Rightarrow> error \<Rightarrow> bool" where
  "errors_is (Errorf f as (Some e)) target = (Errorf f as (Some e) = target \<or> errors_is e target)"
| "errors_is e target = (e = target)"

fun is_panic :: "error \<Rightarrow> bool" where
  "is_panic (Panic _) = True"
| "is_panic _ = False"

abbreviation ok :: "'e option \<Rightarrow> bool" where
  "ok r \<equiv> r = None"

definition is_ok :: "'e + 'a \<Rightarrow> bool" where
  "is_ok r = (case r of Inl _ \<Rightarrow> False | Inr _ \<Rightarrow> True)"

lemma is_ok_simps [simp]: "is_ok (Inr x)" "\<not> is_ok (Inl e)"
  by (simp_all add: is_ok_def)

lemma ok_Inr: "is_ok r \<Longrightarrow> r = Inr (projr r)"
  by (cases r) (auto simp: is_ok_def)

section \<open>Channels\<close>

text \<open>
  A buffered Go channel is the list of its elements, oldest first. All sends of the program to
  a buffered channel are in a \<open>select\<close> with a \<open>default\<close> branch: the element is dropped when
  the buffer is full.
\<close>

definition try_send :: "nat \<Rightarrow> 'a \<Rightarrow> 'a list \<Rightarrow> 'a list" where
  "try_send cap x ch = (if length ch < cap then ch @ [x] else ch)"

lemma try_send_length [chan_simps]: "length ch \<le> cap \<Longrightarrow> length (try_send cap x ch) \<le> cap"
  by (simp add: try_send_def)

lemma set_try_send [chan_simps]: "set (try_send cap x ch) \<subseteq> insert x (set ch)"
  by (auto simp: try_send_def)

lemma set_try_send_mono: "set ch \<subseteq> set (try_send cap x ch)"
  by (auto simp: try_send_def)

lemma fold_try_send_length:
  "length ch \<le> cap \<Longrightarrow> length (fold (try_send cap) xs ch) \<le> cap"
  by (induction xs arbitrary: ch) (auto simp: chan_simps)

lemma set_fold_try_send: "set (fold (try_send cap) xs ch) \<subseteq> set ch \<union> set xs"
proof (induction xs arbitrary: ch)
  case Nil
  then show ?case by simp
next
  case (Cons x xs)
  have "set (fold (try_send cap) xs (try_send cap x ch)) \<subseteq> set (try_send cap x ch) \<union> set xs"
    by (rule Cons.IH)
  also have "\<dots> \<subseteq> set ch \<union> set (x # xs)"
    using set_try_send [of cap x ch] by auto
  finally show ?case by simp
qed

text \<open>Nothing is lost while the buffer has room.\<close>

lemma fold_try_send_room:
  "length ch + length xs \<le> cap \<Longrightarrow> fold (try_send cap) xs ch = ch @ xs"
  by (induction xs arbitrary: ch) (auto simp: try_send_def)

section \<open>Generic facts\<close>

lemma takeWhile_dropWhile_split:
  "takeWhile P xs = ys \<Longrightarrow> dropWhile P xs = zs \<Longrightarrow> xs = ys @ zs"
  by (metis takeWhile_dropWhile_id)

lemma map_of_update_neq: "k \<noteq> k' \<Longrightarrow> map_of (AList.update k v m) k' = map_of m k'"
  by (simp add: update_conv')

lemma map_of_update_eq [simp]: "map_of (AList.update k v m) k = Some v"
  by (simp add: update_conv')

text \<open>The elements of a list in the order of their first occurrence, each once.\<close>

definition firsts :: "'a list \<Rightarrow> 'a list" where
  "firsts xs = rev (remdups (rev xs))"

lemma firsts_laws [simp]: "set (firsts xs) = set xs" "distinct (firsts xs)"
  by (simp_all add: firsts_def)

lemma remdups_snoc: "remdups (ys @ [x]) = filter (\<lambda>y. y \<noteq> x) (remdups ys) @ [x]"
  by (induction ys) auto

lemma firsts_Nil [simp]: "firsts [] = []"
  by (simp add: firsts_def)

lemma firsts_Cons: "firsts (x # xs) = x # filter (\<lambda>y. y \<noteq> x) (firsts xs)"
  by (simp add: firsts_def remdups_snoc rev_filter)

lemma firsts_eq_Nil [simp]: "firsts xs = [] \<longleftrightarrow> xs = []"
  by (simp add: firsts_def)

text \<open>Appending elements one by one, unless they are there, is appending the new first ones.\<close>

lemma foldl_insert_firsts:
  "foldl (\<lambda>ys x. if x \<in> set ys then ys else ys @ [x]) acc xs =
     acc @ filter (\<lambda>x. x \<notin> set acc) (firsts xs)"
proof (induction xs arbitrary: acc)
  case Nil
  then show ?case by simp
next
  case (Cons x xs)
  have eq: "filter (\<lambda>y. y \<notin> set (acc @ [x])) (firsts xs) =
      filter (\<lambda>y. y \<notin> set acc) (filter (\<lambda>y. y \<noteq> x) (firsts xs))"
    by (auto intro: filter_cong)
  show ?case
  proof (cases "x \<in> set acc")
    case True
    then have "filter (\<lambda>y. y \<notin> set acc) (filter (\<lambda>y. y \<noteq> x) (firsts xs)) =
        filter (\<lambda>y. y \<notin> set acc) (firsts xs)"
      by (auto intro: filter_cong)
    with True Cons show ?thesis by (simp add: firsts_Cons)
  next
    case False
    with Cons [of "acc @ [x]"] eq show ?thesis by (simp add: firsts_Cons)
  qed
qed

text \<open>The first element with a property heads the filtered list.\<close>

lemma find_filter_hd: "find P xs = (case filter P xs of [] \<Rightarrow> None | x # _ \<Rightarrow> Some x)"
  by (induction xs) auto

lemma find_append_none: "find P xs = None \<Longrightarrow> find P (xs @ ys) = find P ys"
  by (induction xs) (auto split: if_splits)

lemma find_SomeD: "find P xs = Some x \<Longrightarrow> x \<in> set xs \<and> P x"
  by (auto simp: find_Some_iff)

end
