(* ===== verification/GoStrings.thy ===== *)
theory GoStrings
  imports Prelude
begin

text \<open>
  The functions of Go's \<open>strings\<close> package that the program calls, on byte strings. White space is
  Unicode's \<open>White_Space\<close> property, as \<open>unicode.IsSpace\<close> has it, recognised by its UTF-8
  encoding: the lead byte of a multi-byte rune never occurs inside another rune, so matching the
  encodings at every position is what decoding rune by rune does.
\<close>

section \<open>White space\<close>

definition ascii_space :: "char \<Rightarrow> bool" where
  "ascii_space c \<longleftrightarrow> c = CHR '' '' \<or> c = CHR 0x09 \<or> c = CHR 0x0A \<or> c = CHR 0x0B \<or>
     c = CHR 0x0C \<or> c = CHR 0x0D"

definition space2 :: "char \<Rightarrow> char \<Rightarrow> bool" where
  "space2 c d \<longleftrightarrow> c = CHR 0xC2 \<and> (d = CHR 0x85 \<or> d = CHR 0xA0)"

definition space3 :: "char \<Rightarrow> char \<Rightarrow> char \<Rightarrow> bool" where
  "space3 c d e \<longleftrightarrow>
     c = CHR 0xE1 \<and> d = CHR 0x9A \<and> e = CHR 0x80 \<or>
     c = CHR 0xE2 \<and> d = CHR 0x80 \<and>
       (CHR 0x80 \<le> e \<and> e \<le> CHR 0x8A \<or> e = CHR 0xA8 \<or> e = CHR 0xA9 \<or> e = CHR 0xAF) \<or>
     c = CHR 0xE2 \<and> d = CHR 0x81 \<and> e = CHR 0x9F \<or>
     c = CHR 0xE3 \<and> d = CHR 0x80 \<and> e = CHR 0x80"

text \<open>The number of bytes of the white space rune a string begins with, 0 if there is none.\<close>

fun space_len :: "string \<Rightarrow> nat" where
  "space_len [] = 0"
| "space_len (c # s) =
     (if ascii_space c then 1
      else case s of [] \<Rightarrow> 0
      | d # s' \<Rightarrow> if space2 c d then 2
          else (case s' of [] \<Rightarrow> 0 | e # _ \<Rightarrow> if space3 c d e then 3 else 0))"

text \<open>The same for the rune a string ends with, on the reversed string.\<close>

fun space_rlen :: "string \<Rightarrow> nat" where
  "space_rlen [] = 0"
| "space_rlen (c # s) =
     (if ascii_space c then 1
      else case s of [] \<Rightarrow> 0
      | d # s' \<Rightarrow> if space2 d c then 2
          else (case s' of [] \<Rightarrow> 0 | e # _ \<Rightarrow> if space3 e d c then 3 else 0))"

lemma space_len_drop: "0 < space_len s \<Longrightarrow> length s - space_len s < length s"
  by (cases s) auto

lemma space_rlen_drop: "0 < space_rlen s \<Longrightarrow> length s - space_rlen s < length s"
  by (cases s) auto

function trim_left :: "string \<Rightarrow> string" where
  "trim_left s = (if space_len s = 0 then s else trim_left (drop (space_len s) s))"
  by pat_completeness auto
termination
  by (relation "measure length") (auto intro: space_len_drop simp del: space_len.simps)

function trim_rev :: "string \<Rightarrow> string" where
  "trim_rev s = (if space_rlen s = 0 then s else trim_rev (drop (space_rlen s) s))"
  by pat_completeness auto
termination
  by (relation "measure length") (auto intro: space_rlen_drop simp del: space_rlen.simps)

declare trim_left.simps [simp del] trim_rev.simps [simp del]

definition trim_space :: "string \<Rightarrow> string" where
  "trim_space s = rev (trim_rev (rev (trim_left s)))"

lemma trim_left_id: "space_len s = 0 \<Longrightarrow> trim_left s = s"
  by (subst trim_left.simps) simp

lemma trim_rev_id: "space_rlen s = 0 \<Longrightarrow> trim_rev s = s"
  by (subst trim_rev.simps) simp

lemma trim_left_done: "space_len (trim_left s) = 0"
proof (induction s rule: trim_left.induct)
  case (1 s)
  then show ?case by (cases "space_len s = 0") (simp_all add: trim_left.simps [of s])
qed

lemma trim_rev_done: "space_rlen (trim_rev s) = 0"
proof (induction s rule: trim_rev.induct)
  case (1 s)
  then show ?case by (cases "space_rlen s = 0") (simp_all add: trim_rev.simps [of s])
qed

text \<open>A string without blanks at its two ends is left alone.\<close>

lemma trim_space_id:
  "space_len s = 0 \<Longrightarrow> space_rlen (rev s) = 0 \<Longrightarrow> trim_space s = s"
  by (simp add: trim_space_def trim_left_id trim_rev_id)

lemma trim_space_Nil [simp]: "trim_space [] = []"
  by (simp add: trim_space_id)

section \<open>Searching, splitting and joining\<close>

definition has_prefix :: "string \<Rightarrow> string \<Rightarrow> bool" where
  "has_prefix s p \<longleftrightarrow> take (length p) s = p"

lemma has_prefix_append [simp]: "has_prefix (p @ s) p"
  by (simp add: has_prefix_def)

lemma has_prefix_iff: "has_prefix s p \<longleftrightarrow> (\<exists>t. s = p @ t)"
  unfolding has_prefix_def by (metis append_eq_conv_conj append_take_drop_id)

fun str_contains :: "string \<Rightarrow> string \<Rightarrow> bool" where
  "str_contains [] p = (p = [])"
| "str_contains (c # s) p = (has_prefix (c # s) p \<or> str_contains s p)"

lemma str_contains_iff: "str_contains s p \<longleftrightarrow> (\<exists>a b. s = a @ p @ b)"
proof (induction s)
  case Nil
  then show ?case by simp
next
  case (Cons c s)
  show ?case
  proof
    assume "str_contains (c # s) p"
    then consider "has_prefix (c # s) p" | "str_contains s p" by auto
    then show "\<exists>a b. c # s = a @ p @ b"
    proof cases
      case 1
      then obtain t where "c # s = p @ t" by (auto simp: has_prefix_iff)
      then have "c # s = [] @ p @ t" by simp
      then show ?thesis by blast
    next
      case 2
      with Cons obtain a b where "s = a @ p @ b" by blast
      then have "c # s = (c # a) @ p @ b" by simp
      then show ?thesis by blast
    qed
  next
    assume "\<exists>a b. c # s = a @ p @ b"
    then obtain a b where "c # s = a @ p @ b" by blast
    then show "str_contains (c # s) p"
    proof (cases a)
      case Nil
      with \<open>c # s = a @ p @ b\<close> have "has_prefix (c # s) p" by (auto simp: has_prefix_iff)
      then show ?thesis by simp
    next
      case (Cons x a')
      with \<open>c # s = a @ p @ b\<close> have "s = a' @ p @ b" by simp
      with Cons.IH show ?thesis by auto
    qed
  qed
qed

text \<open>\<open>strings.Split(s, sep)\<close> for a separator of one byte.\<close>

fun split_on :: "char \<Rightarrow> string \<Rightarrow> string list" where
  "split_on sep [] = [[]]"
| "split_on sep (c # s) =
     (if c = sep then [] # split_on sep s
      else (case split_on sep s of [] \<Rightarrow> [[c]] | f # fs \<Rightarrow> (c # f) # fs))"

lemma split_on_not_Nil [simp]: "split_on sep s \<noteq> []"
  by (induction s) (auto split: list.splits)

lemma split_on_no_sep: "sep \<notin> set s \<Longrightarrow> split_on sep s = [s]"
  by (induction s) auto

lemma split_on_append_sep:
  "sep \<notin> set a \<Longrightarrow> split_on sep (a @ sep # b) = a # split_on sep b"
  by (induction a) auto

lemma split_on_parts: "f \<in> set (split_on sep s) \<Longrightarrow> sep \<notin> set f"
  by (induction s arbitrary: f) (auto split: if_splits list.splits)

text \<open>\<open>strings.Cut(s, sep)\<close> for a separator of one byte; \<open>None\<close> when it does not occur.\<close>

fun cut :: "char \<Rightarrow> string \<Rightarrow> (string \<times> string) option" where
  "cut sep [] = None"
| "cut sep (c # s) =
     (if c = sep then Some ([], s) else map_option (\<lambda>(a, b). (c # a, b)) (cut sep s))"

lemma cut_append_sep: "sep \<notin> set a \<Longrightarrow> cut sep (a @ sep # b) = Some (a, b)"
  by (induction a) auto

lemma cut_None: "cut sep s = None \<longleftrightarrow> sep \<notin> set s"
  by (induction s) auto

lemma cut_Some: "cut sep s = Some (a, b) \<Longrightarrow> s = a @ sep # b \<and> sep \<notin> set a"
  by (induction s arbitrary: a) (auto split: if_splits)

text \<open>\<open>strings.Fields(s)\<close>: the maximal runs without white space.\<close>

function fields_from :: "string \<Rightarrow> string \<Rightarrow> string list" where
  "fields_from cur s =
     (case s of [] \<Rightarrow> if cur = [] then [] else [rev cur]
      | c # s' \<Rightarrow>
          if space_len s = 0 then fields_from (c # cur) s'
          else (if cur = [] then [] else [rev cur]) @ fields_from [] (drop (space_len s) s))"
  by pat_completeness auto
termination
  by (relation "measure (\<lambda>(cur, s). length s)") auto

declare fields_from.simps [simp del]

definition str_fields :: "string \<Rightarrow> string list" where
  "str_fields s = fields_from [] s"

fun str_join :: "string list \<Rightarrow> string \<Rightarrow> string" where
  "str_join [] sep = []"
| "str_join [s] sep = s"
| "str_join (s # ss) sep = s @ sep @ str_join ss sep"

lemma str_join_snoc: "xs \<noteq> [] \<Longrightarrow> str_join (xs @ [x]) sep = str_join xs sep @ sep @ x"
  by (induction xs sep rule: str_join.induct) auto

text \<open>
  \<open>strings.ToLower\<close>, as far as its result can be compared with ASCII text: besides A to Z, the
  only runes whose lower case is ASCII are U+0130 and U+212A.
\<close>

definition lower_ascii :: "char \<Rightarrow> char" where
  "lower_ascii c = (if CHR ''A'' \<le> c \<and> c \<le> CHR ''Z'' then char_of (of_char c + 32 :: nat) else c)"

fun to_lower :: "string \<Rightarrow> string" where
  "to_lower [] = []"
| "to_lower (c # s) =
     (case s of
        d # s' \<Rightarrow>
          if c = CHR 0xC4 \<and> d = CHR 0xB0 then CHR ''i'' # to_lower s'
          else (case s' of
              e # s'' \<Rightarrow>
                if c = CHR 0xE2 \<and> d = CHR 0x84 \<and> e = CHR 0xAA then CHR ''k'' # to_lower s''
                else lower_ascii c # to_lower s
            | [] \<Rightarrow> lower_ascii c # to_lower s)
      | [] \<Rightarrow> [lower_ascii c])"

text \<open>
  \<open>strings.EqualFold(s, t)\<close> for a \<open>t\<close> of ASCII letters other than k and s, which are the only
  letters that fold to a rune outside ASCII.
\<close>

definition equal_fold :: "string \<Rightarrow> string \<Rightarrow> bool" where
  "equal_fold s t \<longleftrightarrow> map lower_ascii s = map lower_ascii t"

definition is_digit :: "char \<Rightarrow> bool" where
  "is_digit c \<longleftrightarrow> CHR ''0'' \<le> c \<and> c \<le> CHR ''9''"

definition digit_val :: "char \<Rightarrow> int" where
  "digit_val c = of_char c - 48"

text \<open>Comparisons of characters as comparisons of their codes.\<close>

lemma char_le_iff: "c \<le> d \<longleftrightarrow> (of_char c :: int) \<le> of_char d"
proof -
  have "int (of_char x) = of_char x" for x :: char by (rule of_nat_of_char)
  then show ?thesis by (metis less_eq_char_def of_nat_le_iff)
qed

lemma is_digit_iff: "is_digit c \<longleftrightarrow> 48 \<le> (of_char c :: int) \<and> (of_char c :: int) \<le> 57"
  by (simp add: is_digit_def char_le_iff)

lemma digit_val_nonneg: "is_digit c \<Longrightarrow> 0 \<le> digit_val c"
  by (simp add: is_digit_iff digit_val_def)

text \<open>\<open>%d\<close> of a natural number.\<close>

fun nat_string :: "nat \<Rightarrow> string" where
  "nat_string n =
     (if n < 10 then [char_of (48 + n)] else nat_string (n div 10) @ [char_of (48 + n mod 10)])"

declare nat_string.simps [simp del]

text \<open>Text without the separator cannot straddle it.\<close>

lemma str_contains_sep:
  assumes "sep \<notin> set p"
  shows "str_contains (a @ sep # b) p \<longleftrightarrow> str_contains a p \<or> str_contains b p"
proof
  assume "str_contains (a @ sep # b) p"
  then obtain x y where xy: "a @ sep # b = x @ p @ y" by (auto simp: str_contains_iff)
  consider us where "a = x @ us" "us @ sep # b = p @ y" | us where "x = a @ us" "sep # b = us @ p @ y"
    using xy by (auto simp: append_eq_append_conv2)
  then show "str_contains a p \<or> str_contains b p"
  proof cases
    case 1
    then obtain vs where "us = p @ vs \<or> us @ vs = p \<and> sep # b = vs @ y"
      by (auto simp: append_eq_append_conv2)
    moreover have "vs = []" if "us @ vs = p" "sep # b = vs @ y"
      using that assms by (cases vs) auto
    ultimately have "us = p @ vs" by auto
    with 1 have "a = x @ p @ vs" by simp
    then show ?thesis unfolding str_contains_iff by blast
  next
    case 2
    with assms show ?thesis
      by (cases us; cases p) (auto simp: str_contains_iff)
  qed
next
  assume "str_contains a p \<or> str_contains b p"
  then show "str_contains (a @ sep # b) p"
    unfolding str_contains_iff by (metis append.assoc append_Cons)
qed

lemma str_contains_refl [simp]: "str_contains p p"
  unfolding str_contains_iff by (metis append_Nil append_Nil2)

section \<open>Text without blanks\<close>

text \<open>Words separated by single blanks are the fields of a line.\<close>

definition plain_char :: "char \<Rightarrow> bool" where
  "plain_char c \<longleftrightarrow> CHR 0x21 \<le> c \<and> c \<le> CHR 0x7E"

definition plain_word :: "string \<Rightarrow> bool" where
  "plain_word s \<longleftrightarrow> s \<noteq> [] \<and> list_all plain_char s"

lemma plain_not_space: "plain_char c \<Longrightarrow> space_len (c # s) = 0"
proof -
  assume p: "plain_char c"
  then have "33 \<le> (of_char c :: int)" "(of_char c :: int) \<le> 126"
    by (simp_all add: plain_char_def char_le_iff)
  then have "\<not> ascii_space c" "c \<noteq> CHR 0xC2" "c \<noteq> CHR 0xE1" "c \<noteq> CHR 0xE2" "c \<noteq> CHR 0xE3"
    by (auto simp: ascii_space_def)
  then show ?thesis by (simp add: space2_def space3_def split: list.split)
qed

lemma fields_from_plain:
  "list_all plain_char w \<Longrightarrow> fields_from cur (w @ s) = fields_from (rev w @ cur) s"
proof (induction w arbitrary: cur)
  case (Cons c w)
  then have "space_len (c # w @ s) = 0" by (intro plain_not_space) simp
  then have "fields_from cur ((c # w) @ s) = fields_from (c # cur) (w @ s)"
    by (subst fields_from.simps) (simp del: space_len.simps)
  with Cons show ?case by simp
qed simp

lemma fields_from_space: "fields_from cur (CHR '' '' # s) = (if cur = [] then [] else [rev cur]) @ fields_from [] s"
  by (subst fields_from.simps) (simp add: ascii_space_def)

lemma fields_from_Nil: "fields_from cur [] = (if cur = [] then [] else [rev cur])"
  by (subst fields_from.simps) simp

lemma str_fields_words: "list_all plain_word ws \<Longrightarrow> str_fields (str_join ws '' '') = ws"
proof (induction ws rule: induct_list012)
  case (3 v w ws)
  then show ?case
    by (auto simp: str_fields_def plain_word_def fields_from_plain fields_from_space)
qed (use fields_from_plain [where s = "[]" and cur = "[]"] in
    \<open>auto simp: str_fields_def plain_word_def fields_from_Nil\<close>)

lemma plain_not_space_end: "plain_char c \<Longrightarrow> space_rlen (c # s) = 0"
proof -
  assume p: "plain_char c"
  then have c: "33 \<le> (of_char c :: int)" "(of_char c :: int) \<le> 126"
    by (simp_all add: plain_char_def char_le_iff)
  then have "\<not> ascii_space c" "c \<noteq> CHR 0x85" "c \<noteq> CHR 0xA0" "c \<noteq> CHR 0x9F" "c \<noteq> CHR 0x80"
    "c \<noteq> CHR 0xA8" "c \<noteq> CHR 0xA9" "c \<noteq> CHR 0xAF" "\<not> CHR 0x80 \<le> c"
    by (auto simp: ascii_space_def char_le_iff)
  then show ?thesis by (simp add: space2_def space3_def split: list.split)
qed

lemma trim_plain:
  assumes "list_all plain_char s"
  shows "trim_space s = s"
proof (cases s)
  case (Cons c r)
  obtain d q where rev: "rev s = d # q" using Cons by (cases "rev s") simp_all
  then have "d \<in> set s" by (metis list.set_intros(1) set_rev)
  then have "plain_char d" using assms by (simp add: list_all_iff)
  then have "space_rlen (rev s) = 0" unfolding rev by (rule plain_not_space_end)
  moreover have "space_len s = 0"
    unfolding Cons using assms Cons by (intro plain_not_space) simp
  ultimately show ?thesis by (intro trim_space_id)
qed simp

end
