(* ===== verification/Netip.thy ===== *)
theory Netip
  imports GoStrings
begin

text \<open>
  The part of Go's \<open>net/netip\<close> the program uses: addresses, their classification, their order
  (\<open>Addr.Compare\<close>), their text form, and prefixes. An address is invalid (the zero \<open>Addr\<close>), an
  IPv4 address, or an IPv6 address with a zone, the empty zone standing for none. An IPv6 address
  in \<open>::ffff:0:0/96\<close> is an IPv4-mapped one: \<open>Is6\<close> holds for it, and the classification functions
  look at the IPv4 address in it.
\<close>

section \<open>Addresses\<close>

datatype addr = NoAddr | IP4 "32 word" | IP6 "128 word" string

fun is_valid :: "addr \<Rightarrow> bool" where
  "is_valid NoAddr = False"
| "is_valid _ = True"

fun is4 :: "addr \<Rightarrow> bool" where
  "is4 (IP4 _) = True"
| "is4 _ = False"

fun is6 :: "addr \<Rightarrow> bool" where
  "is6 (IP6 _ _) = True"
| "is6 _ = False"

definition mapped4 :: "128 word \<Rightarrow> bool" where
  "mapped4 w \<longleftrightarrow> drop_bit 32 w = 0xffff"

fun is4in6 :: "addr \<Rightarrow> bool" where
  "is4in6 (IP6 w _) = mapped4 w"
| "is4in6 _ = False"

fun unmap :: "addr \<Rightarrow> addr" where
  "unmap (IP6 w z) = (if mapped4 w then IP4 (ucast w) else IP6 w z)"
| "unmap a = a"

fun addr_zone :: "addr \<Rightarrow> string" where
  "addr_zone (IP6 _ z) = z"
| "addr_zone _ = []"

fun without_zone :: "addr \<Rightarrow> addr" where
  "without_zone (IP6 w _) = IP6 w []"
| "without_zone a = a"

fun bit_len :: "addr \<Rightarrow> nat" where
  "bit_len NoAddr = 0"
| "bit_len (IP4 _) = 32"
| "bit_len (IP6 _ _) = 128"

lemma is6_iff: "is6 a \<longleftrightarrow> (\<exists>w z. a = IP6 w z)"
  by (cases a) auto

lemma is6_valid [simp]: "is6 a \<Longrightarrow> is_valid a"
  by (cases a) auto

lemma unmap_unmap [simp]: "unmap (unmap a) = unmap a"
  by (cases a) auto

lemma is6_unmap [addr_simps]: "is6 (unmap a) \<longleftrightarrow> is6 a \<and> \<not> is4in6 a"
  by (cases a) auto

lemma unmap_id: "\<not> is4in6 a \<Longrightarrow> unmap a = a"
  by (cases a) auto

lemma is6_unmap_eq: "is6 (unmap a) \<Longrightarrow> unmap a = a"
  by (cases a) (auto split: if_splits)

section \<open>Classification\<close>

text \<open>
  \<open>v6(0)\<close> is the first byte and \<open>v6u16(0)\<close> the first 16 bits of the address; the IPv4 tests read
  the first bytes in the same way.
\<close>

definition v4_byte :: "nat \<Rightarrow> 32 word \<Rightarrow> 32 word" where
  "v4_byte i v = drop_bit (8 * (3 - i)) v AND 0xff"

definition v6_hi8 :: "128 word \<Rightarrow> 128 word" where
  "v6_hi8 w = drop_bit 120 w"

definition v6_hi16 :: "128 word \<Rightarrow> 128 word" where
  "v6_hi16 w = drop_bit 112 w"

definition is_unspecified :: "addr \<Rightarrow> bool" where
  "is_unspecified a \<longleftrightarrow> a = IP4 0 \<or> a = IP6 0 []"

definition is_link_local_unicast :: "addr \<Rightarrow> bool" where
  "is_link_local_unicast a = (case unmap a of
     NoAddr \<Rightarrow> False
   | IP4 v \<Rightarrow> v4_byte 0 v = 169 \<and> v4_byte 1 v = 254
   | IP6 w _ \<Rightarrow> v6_hi16 w AND 0xffc0 = 0xfe80)"

definition is_loopback :: "addr \<Rightarrow> bool" where
  "is_loopback a = (case unmap a of
     NoAddr \<Rightarrow> False
   | IP4 v \<Rightarrow> v4_byte 0 v = 127
   | IP6 w _ \<Rightarrow> w = 1)"

definition is_multicast :: "addr \<Rightarrow> bool" where
  "is_multicast a = (case unmap a of
     NoAddr \<Rightarrow> False
   | IP4 v \<Rightarrow> v4_byte 0 v AND 0xf0 = 0xe0
   | IP6 w _ \<Rightarrow> v6_hi8 w = 0xff)"

definition is_private :: "addr \<Rightarrow> bool" where
  "is_private a = (case unmap a of
     NoAddr \<Rightarrow> False
   | IP4 v \<Rightarrow> v4_byte 0 v = 10 \<or> v4_byte 0 v = 172 \<and> v4_byte 1 v AND 0xf0 = 16 \<or>
       v4_byte 0 v = 192 \<and> v4_byte 1 v = 168
   | IP6 w _ \<Rightarrow> v6_hi8 w AND 0xfe = 0xfc)"

definition is_global_unicast :: "addr \<Rightarrow> bool" where
  "is_global_unicast a =
     (is_valid a \<and>
      (let b = unmap a in
         b \<noteq> IP4 0 \<and> b \<noteq> IP4 0xffffffff \<and> b \<noteq> IP6 0 [] \<and>
         \<not> is_loopback b \<and> \<not> is_multicast b \<and> \<not> is_link_local_unicast b))"

section \<open>Bytes\<close>

text \<open>Big-endian bytes of a word, and back.\<close>

definition word_bytes :: "nat \<Rightarrow> 'a::len word \<Rightarrow> bytes" where
  "word_bytes n w = map (\<lambda>i. ucast (drop_bit (8 * (n - 1 - i)) w)) [0..<n]"

definition bytes_word :: "bytes \<Rightarrow> 'a::len word" where
  "bytes_word bs = foldl (\<lambda>w b. push_bit 8 w OR ucast b) 0 bs"

fun as_slice :: "addr \<Rightarrow> bytes" where
  "as_slice NoAddr = []"
| "as_slice (IP4 v) = word_bytes 4 v"
| "as_slice (IP6 w _) = word_bytes 16 w"

text \<open>\<open>As16\<close> panics on the zero \<open>Addr\<close> and gives the IPv4-mapped form of an IPv4 address.\<close>

fun as16 :: "addr \<Rightarrow> error + bytes" where
  "as16 NoAddr = Inl (Panic ''As16 called on IP zero value'')"
| "as16 (IP4 v) = Inr (replicate 10 0 @ [0xff, 0xff] @ word_bytes 4 v)"
| "as16 (IP6 w _) = Inr (word_bytes 16 w)"

definition addr_from_slice :: "bytes \<Rightarrow> addr option" where
  "addr_from_slice bs =
     (if length bs = 4 then Some (IP4 (bytes_word bs))
      else if length bs = 16 then Some (IP6 (bytes_word bs) [])
      else None)"

lemma length_word_bytes [simp]: "length (word_bytes n w) = n"
  by (simp add: word_bytes_def)

lemma as16_length: "as16 a = Inr bs \<Longrightarrow> length bs = 16"
  by (cases a) auto

lemma as16_ok: "is_valid a \<Longrightarrow> \<exists>bs. as16 a = Inr bs"
  by (cases a) auto

section \<open>Order\<close>

definition cmp :: "'a::linorder \<Rightarrow> 'a \<Rightarrow> int" where
  "cmp x y = (if x < y then -1 else if x = y then 0 else 1)"

text \<open>\<open>Addr.Compare\<close>: by length, then by value, then by zone.\<close>

fun addr_value :: "addr \<Rightarrow> int" where
  "addr_value NoAddr = 0"
| "addr_value (IP4 v) = uint v"
| "addr_value (IP6 w _) = uint w"

definition addr_compare :: "addr \<Rightarrow> addr \<Rightarrow> int" where
  "addr_compare a b =
     (if bit_len a \<noteq> bit_len b then cmp (bit_len a) (bit_len b)
      else if addr_value a \<noteq> addr_value b then cmp (addr_value a) (addr_value b)
      else if is6 a then cmp (addr_zone a) (addr_zone b) else 0)"

lemma addr_eq_iff:
  "a = b \<longleftrightarrow> bit_len a = bit_len b \<and> addr_value a = addr_value b \<and> addr_zone a = addr_zone b"
  by (cases a; cases b) (auto simp: word_uint_eq_iff)

lemma addr_zone_not6: "\<not> is6 a \<Longrightarrow> addr_zone a = []"
  by (cases a) auto

lemma is6_bit_len: "is6 a \<longleftrightarrow> bit_len a = 128"
  by (cases a) auto

instantiation addr :: linorder
begin

definition less_eq_addr :: "addr \<Rightarrow> addr \<Rightarrow> bool" where
  "less_eq_addr a b \<longleftrightarrow> addr_compare a b \<le> 0"

definition less_addr :: "addr \<Rightarrow> addr \<Rightarrow> bool" where
  "less_addr a b \<longleftrightarrow> addr_compare a b < 0"

instance
proof
  fix a b c :: addr
  show "(a < b) = (a \<le> b \<and> \<not> b \<le> a)"
    by (auto simp: less_addr_def less_eq_addr_def addr_compare_def cmp_def is6_bit_len)
  show "a \<le> a"
    by (auto simp: less_eq_addr_def addr_compare_def cmp_def)
  show "a \<le> b \<or> b \<le> a"
    by (auto simp: less_eq_addr_def addr_compare_def cmp_def is6_bit_len)
  show "a \<le> b \<Longrightarrow> b \<le> a \<Longrightarrow> a = b"
    by (auto simp: less_eq_addr_def addr_compare_def cmp_def addr_eq_iff is6_bit_len
        addr_zone_not6 split: if_splits)
  show "a \<le> b \<Longrightarrow> b \<le> c \<Longrightarrow> a \<le> c"
    by (auto simp: less_eq_addr_def addr_compare_def cmp_def is6_bit_len split: if_splits)
qed

end

section \<open>Prefixes\<close>

text \<open>
  A \<open>Prefix\<close> is an address without zone and a length, -1 when it is invalid (\<open>Prefix.Bits\<close>).
\<close>

record ipprefix =
  pfx_addr :: addr
  pfx_bits :: int

definition prefix_from :: "addr \<Rightarrow> int \<Rightarrow> ipprefix" where
  "prefix_from a bits = \<lparr>pfx_addr = without_zone a,
     pfx_bits = (if is_valid a \<and> 0 \<le> bits \<and> bits \<le> int (bit_len a) then bits else -1)\<rparr>"

text \<open>\<open>high_bits n k w\<close> keeps the first \<open>k\<close> of the \<open>n\<close> bits of a word (\<open>mask6\<close>).\<close>

definition high_bits :: "nat \<Rightarrow> nat \<Rightarrow> 'a::len word \<Rightarrow> 'a word" where
  "high_bits n k w = push_bit (n - k) (drop_bit (n - k) w)"

fun addr_prefix :: "addr \<Rightarrow> int \<Rightarrow> ipprefix" where
  "addr_prefix NoAddr bits = \<lparr>pfx_addr = NoAddr, pfx_bits = -1\<rparr>"
| "addr_prefix (IP4 v) bits = prefix_from (IP4 (high_bits 32 (nat bits) v)) bits"
| "addr_prefix (IP6 w z) bits = prefix_from (IP6 (high_bits 128 (nat bits) w) z) bits"

text \<open>
  \<open>Masked\<close>; the result is the zero prefix when \<open>Addr.Prefix\<close> fails, on an invalid prefix.
\<close>

definition pfx_masked :: "ipprefix \<Rightarrow> ipprefix" where
  "pfx_masked p =
     (if pfx_bits p < 0 then \<lparr>pfx_addr = NoAddr, pfx_bits = -1\<rparr>
      else addr_prefix (pfx_addr p) (pfx_bits p))"

definition pfx_contains :: "ipprefix \<Rightarrow> addr \<Rightarrow> bool" where
  "pfx_contains p a =
     (if pfx_bits p < 0 \<or> addr_zone a \<noteq> [] then False
      else case (pfx_addr p, a) of
        (IP4 v, IP4 u) \<Rightarrow> high_bits 32 (nat (pfx_bits p)) v = high_bits 32 (nat (pfx_bits p)) u
      | (IP6 w _, IP6 u _) \<Rightarrow>
          high_bits 128 (nat (pfx_bits p)) w = high_bits 128 (nat (pfx_bits p)) u
      | _ \<Rightarrow> False)"

lemma high_bits_idem [simp]: "high_bits n k (high_bits n k w) = high_bits n k w"
  by (rule bit_word_eqI) (auto simp: high_bits_def bit_simps)

lemma high_bits_all [simp]: "high_bits n n w = w"
  by (simp add: high_bits_def)

lemma pfx_contains_masked:
  "pfx_bits p \<le> int (bit_len (pfx_addr p)) \<Longrightarrow>
   pfx_contains (pfx_masked p) a = pfx_contains p a"
  by (cases "pfx_addr p"; cases a)
    (auto simp: pfx_masked_def pfx_contains_def prefix_from_def)

text \<open>A host prefix contains exactly its address.\<close>

lemma pfx_contains_host:
  "is6 a \<Longrightarrow> pfx_contains (prefix_from a 128) b \<longleftrightarrow> b = without_zone a"
  by (cases a; cases b) (auto simp: pfx_contains_def prefix_from_def)

lemma high_bits_eq_iff:
  fixes w u :: "'a::len word"
  assumes "LENGTH('a) = n" "k \<le> n"
  shows "high_bits n k w = high_bits n k u \<longleftrightarrow> drop_bit (n - k) w = drop_bit (n - k) u"
proof
  assume "drop_bit (n - k) w = drop_bit (n - k) u"
  then show "high_bits n k w = high_bits n k u" by (simp add: high_bits_def)
next
  assume h: "high_bits n k w = high_bits n k u"
  have "drop_bit (n - k) (push_bit (n - k) (drop_bit (n - k) v)) = drop_bit (n - k) v"
    for v :: "'a word"
    by (rule bit_word_eqI) (use assms in \<open>auto simp: bit_simps dest: bit_imp_le_length\<close>)
  with h show "drop_bit (n - k) w = drop_bit (n - k) u"
    by (metis high_bits_def)
qed

end
