(* ===== verification/Netip_Text.thy ===== *)
theory Netip_Text
  imports Netip
begin

text \<open>
  The text form of addresses and prefixes: \<open>ParseAddr\<close>, \<open>ParsePrefix\<close> and \<open>Addr.String\<close> of Go's
  \<open>net/netip\<close>. The parsers return \<open>None\<close> where Go returns an error: no caller looks at the text
  of that error.
\<close>

section \<open>Parsing an IPv4 address\<close>

text \<open>
  The loop of \<open>parseIPv4Fields\<close>: the fields already complete, the value and the number of digits
  of the current one.
\<close>

fun v4_loop :: "bytes \<Rightarrow> int \<Rightarrow> nat \<Rightarrow> string \<Rightarrow> bytes option" where
  "v4_loop fs v n [] = (if length fs < 3 then None else Some (fs @ [word_of_int v]))"
| "v4_loop fs v n (c # s) =
     (if is_digit c then
        if n = 1 \<and> v = 0 then None
        else if v * 10 + digit_val c > 255 then None
        else v4_loop fs (v * 10 + digit_val c) (Suc n) s
      else if c = CHR ''.'' then
        if n = 0 \<or> s = [] then None
        else if length fs = 3 then None
        else v4_loop (fs @ [word_of_int v]) 0 0 s
      else None)"

definition parse_v4_fields :: "string \<Rightarrow> bytes option" where
  "parse_v4_fields s = v4_loop [] 0 0 s"

definition parse_ipv4 :: "string \<Rightarrow> addr option" where
  "parse_ipv4 s = map_option (\<lambda>fs. IP4 (bytes_word fs)) (parse_v4_fields s)"

section \<open>Parsing an IPv6 address\<close>

definition hex_val :: "char \<Rightarrow> 32 word option" where
  "hex_val c =
     (if is_digit c then Some (of_char c - 48)
      else if CHR ''a'' \<le> c \<and> c \<le> CHR ''f'' then Some (of_char c - 87)
      else if CHR ''A'' \<le> c \<and> c \<le> CHR ''F'' then Some (of_char c - 55)
      else None)"

text \<open>One group: its number of digits, its value (a \<open>uint32\<close>) and the rest of the string.\<close>

fun hex_run :: "nat \<Rightarrow> 32 word \<Rightarrow> string \<Rightarrow> (nat \<times> 32 word \<times> string) option" where
  "hex_run off acc [] = Some (off, acc, [])"
| "hex_run off acc (c # s) =
     (case hex_val c of
        None \<Rightarrow> Some (off, acc, c # s)
      | Some d \<Rightarrow>
          if off > 3 then None
          else if push_bit 4 acc + d > 0xffff then None
          else hex_run (Suc off) (push_bit 4 acc + d) s)"

text \<open>
  The loop of \<open>parseIPv6\<close>: the number of groups still wanted, the groups so far, the place of the
  ellipsis among them, and the string. Go counts bytes where the model counts groups of two.
\<close>

type_synonym group = "16 word"

fun v6_loop ::
  "nat \<Rightarrow> group list \<Rightarrow> nat option \<Rightarrow> string \<Rightarrow> (group list \<times> nat option \<times> string) option"
where
  "v6_loop 0 gs ell s = Some (gs, ell, s)"
| "v6_loop (Suc n) gs ell s =
     (case hex_run 0 0 s of
        None \<Rightarrow> None
      | Some (off, acc, r) \<Rightarrow>
          if off = 0 then None
          else (case r of
              [] \<Rightarrow> Some (gs @ [ucast acc], ell, [])
            | c # r' \<Rightarrow>
                if c = CHR ''.'' then
                  if ell = None \<and> length gs \<noteq> 6 then None
                  else if length gs + 2 > 8 then None
                  else (case parse_v4_fields s of
                      Some [a, b, c, d] \<Rightarrow> Some (gs @ [bytes_word [a, b], bytes_word [c, d]], ell, [])
                    | _ \<Rightarrow> None)
                else if c \<noteq> CHR '':'' then None
                else (case r' of
                    [] \<Rightarrow> None
                  | d # r'' \<Rightarrow>
                      if d = CHR '':'' then
                        if ell \<noteq> None then None
                        else if r'' = [] then Some (gs @ [ucast acc], Some (Suc (length gs)), [])
                        else v6_loop n (gs @ [ucast acc]) (Some (Suc (length gs))) r''
                      else v6_loop n (gs @ [ucast acc]) ell r')))"

text \<open>What \<open>parseIPv6\<close> does after the loop: the ellipsis is filled with zero groups.\<close>

definition v6_finish :: "group list \<times> nat option \<times> string \<Rightarrow> group list option" where
  "v6_finish r = (case r of (gs, ell, s) \<Rightarrow>
     if s \<noteq> [] then None
     else if length gs < 8 then
       (case ell of
          None \<Rightarrow> None
        | Some e \<Rightarrow> Some (take e gs @ replicate (8 - length gs) 0 @ drop e gs))
     else if ell \<noteq> None then None
     else Some gs)"

definition parse_v6_groups :: "string \<Rightarrow> group list option" where
  "parse_v6_groups s =
     (case s of
        c # d # r \<Rightarrow>
          if c = CHR '':'' \<and> d = CHR '':'' then
            if r = [] then Some (replicate 8 0)
            else Option.bind (v6_loop 8 [] (Some 0) r) v6_finish
          else Option.bind (v6_loop 8 [] None s) v6_finish
      | _ \<Rightarrow> Option.bind (v6_loop 8 [] None s) v6_finish)"

definition groups_word :: "group list \<Rightarrow> 128 word" where
  "groups_word gs = foldl (\<lambda>w g. push_bit 16 w OR ucast g) 0 gs"

definition parse_ipv6 :: "string \<Rightarrow> addr option" where
  "parse_ipv6 s =
     (case cut CHR ''%'' s of
        None \<Rightarrow> map_option (\<lambda>gs. IP6 (groups_word gs) []) (parse_v6_groups s)
      | Some (a, z) \<Rightarrow>
          if z = [] then None
          else map_option (\<lambda>gs. IP6 (groups_word gs) z) (parse_v6_groups a))"

fun parse_addr_scan :: "string \<Rightarrow> string \<Rightarrow> addr option" where
  "parse_addr_scan s [] = None"
| "parse_addr_scan s (c # r) =
     (if c = CHR ''.'' then parse_ipv4 s
      else if c = CHR '':'' then parse_ipv6 s
      else if c = CHR ''%'' then None
      else parse_addr_scan s r)"

definition parse_addr :: "string \<Rightarrow> addr option" where
  "parse_addr s = parse_addr_scan s s"

section \<open>Parsing a prefix\<close>

text \<open>\<open>strconv.Atoi\<close> on a string without sign.\<close>

definition dec_value :: "string \<Rightarrow> int" where
  "dec_value s = foldl (\<lambda>n c. n * 10 + digit_val c) 0 s"

text \<open>Cutting at the last \<open>/\<close>.\<close>

definition cut_last :: "char \<Rightarrow> string \<Rightarrow> (string \<times> string) option" where
  "cut_last sep s = map_option (\<lambda>(a, b). (rev b, rev a)) (cut sep (rev s))"

text \<open>
  The bits after the slash: no leading zero or sign when there is more than one character. A
  single character is read by \<open>Atoi\<close>, which accepts a digit only.
\<close>

definition parse_bits :: "int \<Rightarrow> string \<Rightarrow> int option" where
  "parse_bits mx s =
     (if length s > 1 \<and> (hd s < CHR ''1'' \<or> CHR ''9'' < hd s) then None
      else if s = [] \<or> \<not> list_all is_digit s then None
      else if dec_value s > mx then None
      else Some (dec_value s))"

definition parse_prefix :: "string \<Rightarrow> ipprefix option" where
  "parse_prefix s =
     (case cut_last CHR ''/'' s of
        None \<Rightarrow> None
      | Some (ip, bits) \<Rightarrow>
          (case parse_addr ip of
             None \<Rightarrow> None
           | Some a \<Rightarrow>
               if is6 a \<and> addr_zone a \<noteq> [] then None
               else (case parse_bits (if is6 a then 128 else 32) bits of
                   None \<Rightarrow> None
                 | Some b \<Rightarrow> Some (prefix_from a b))))"

section \<open>Printing\<close>

definition digit_char :: "'a::len word \<Rightarrow> char" where
  "digit_char d = ''0123456789abcdef'' ! unat d"

text \<open>\<open>appendHex\<close>: up to four digits, without leading zeros.\<close>

definition hex_string :: "group \<Rightarrow> string" where
  "hex_string x =
     (if x \<ge> 0x1000 then [digit_char (drop_bit 12 x)] else []) @
     (if x \<ge> 0x100 then [digit_char (drop_bit 8 x AND 0xf)] else []) @
     (if x \<ge> 0x10 then [digit_char (drop_bit 4 x AND 0xf)] else []) @
     [digit_char (x AND 0xf)]"

text \<open>\<open>appendDecimal\<close> of a byte.\<close>

definition dec_string :: "byte \<Rightarrow> string" where
  "dec_string x =
     (if x \<ge> 100 then [digit_char (x div 100)] else []) @
     (if x \<ge> 10 then [digit_char (x div 10 mod 10)] else []) @
     [digit_char (x mod 10)]"

definition v4_string :: "32 word \<Rightarrow> string" where
  "v4_string v = str_join (map dec_string (word_bytes 4 v)) ''.''"

definition v6_groups :: "128 word \<Rightarrow> group list" where
  "v6_groups w = map (\<lambda>i. ucast (drop_bit (16 * (7 - i)) w)) [0..<8]"

text \<open>The number of zero groups at the head of a list.\<close>

fun zero_run :: "group list \<Rightarrow> nat" where
  "zero_run [] = 0"
| "zero_run (g # gs) = (if g = 0 then Suc (zero_run gs) else 0)"

text \<open>
  The first loop of \<open>appendTo6\<close>: the start and the length of the first longest run of at least
  two zero groups; \<open>best\<close> is the run found so far, of length 0 at the start.
\<close>

fun best_run :: "nat \<Rightarrow> nat \<times> nat \<Rightarrow> group list \<Rightarrow> nat \<times> nat" where
  "best_run i best [] = best"
| "best_run i best (g # gs) =
     best_run (Suc i)
       (let l = zero_run (g # gs) in if 2 \<le> l \<and> snd best < l then (i, l) else best) gs"

definition v6_string :: "128 word \<Rightarrow> string" where
  "v6_string w =
     (let gs = v6_groups w; (i, l) = best_run 0 (0, 0) gs in
        if l = 0 then str_join (map hex_string gs) '':''
        else str_join (map hex_string (take i gs)) '':'' @ ''::'' @
          str_join (map hex_string (drop (i + l) gs)) '':'')"

fun addr_string :: "addr \<Rightarrow> string" where
  "addr_string NoAddr = ''invalid IP''"
| "addr_string (IP4 v) = v4_string v"
| "addr_string (IP6 w z) =
     (if mapped4 w then ''::ffff:'' @ v4_string (ucast w) else v6_string w) @
     (if z = [] then [] else CHR ''%'' # z)"

end
