(* ===== verification/Ifname.thy ===== *)
theory Ifname
  imports Netip_Text
begin

text \<open>
  \<open>ifname.go\<close>: the list of candidate interfaces. The host's interfaces, the lookup by index, the
  interfaces of the default route and the interface addresses come from the operating system and
  are parameters.
\<close>

section \<open>Interfaces\<close>

record iface =
  if_index :: int
  if_name :: string
  if_hw :: bytes
  if_flags :: "32 word"

record candidate =
  cand_if :: iface
  cand_reason :: string

definition flag_up :: "32 word" where "flag_up = 1"
definition flag_loopback :: "32 word" where "flag_loopback = 4"
definition flag_multicast :: "32 word" where "flag_multicast = 16"

text \<open>A nil interface pointer is \<open>None\<close>.\<close>

definition is_usable_responder_interface :: "iface option \<Rightarrow> bool" where
  "is_usable_responder_interface ifi =
     (case ifi of
        None \<Rightarrow> False
      | Some i \<Rightarrow>
          if_flags i AND flag_up \<noteq> 0 \<and> if_flags i AND flag_loopback = 0 \<and>
          if_flags i AND flag_multicast \<noteq> 0 \<and> length (if_hw i) = 6)"

abbreviation usable :: "iface \<Rightarrow> bool" where
  "usable i \<equiv> is_usable_responder_interface (Some i)"

definition interface_by_name_from_list :: "iface list \<Rightarrow> string \<Rightarrow> iface option" where
  "interface_by_name_from_list interfaces name = find (\<lambda>i. if_name i = name) interfaces"

fun add_interface_candidate :: "candidate list \<Rightarrow> iface \<Rightarrow> string \<Rightarrow> candidate list" where
  "add_interface_candidate [] ifi reason = [\<lparr>cand_if = ifi, cand_reason = reason\<rparr>]"
| "add_interface_candidate (c # cs) ifi reason =
     (if if_index (cand_if c) \<noteq> if_index ifi then c # add_interface_candidate cs ifi reason
      else if \<not> str_contains (cand_reason c) reason
      then c\<lparr>cand_reason := cand_reason c @ '','' @ reason\<rparr> # cs
      else c # cs)"

datatype net_addr = IPNetAddr bytes | IPAddrAddr bytes | OtherAddr

definition addr_ip :: "net_addr \<Rightarrow> addr" where
  "addr_ip a =
     (case a of
        OtherAddr \<Rightarrow> NoAddr
      | IPNetAddr ip \<Rightarrow> (case addr_from_slice ip of None \<Rightarrow> NoAddr | Some out \<Rightarrow> unmap out)
      | IPAddrAddr ip \<Rightarrow> (case addr_from_slice ip of None \<Rightarrow> NoAddr | Some out \<Rightarrow> unmap out))"

definition interface_has_ipv6_address :: "(iface \<Rightarrow> error + net_addr list) \<Rightarrow> iface \<Rightarrow> bool" where
  "interface_has_ipv6_address addrs ifi =
     (case addrs ifi of
        Inl e \<Rightarrow> False
      | Inr as \<Rightarrow>
          list_ex (\<lambda>a. let ip = addr_ip a in
            is_valid ip \<and> is6 ip \<and> \<not> is_loopback ip \<and> \<not> is_multicast ip) as)"

text \<open>\<open>describeInterfaces\<close>, with \<open>HardwareAddr.String\<close> and \<open>Flags.String\<close>.\<close>

definition byte_hex :: "byte \<Rightarrow> string" where
  "byte_hex b = [digit_char (drop_bit 4 b), digit_char (b AND 0xf)]"

definition mac_string :: "bytes \<Rightarrow> string" where
  "mac_string hw = str_join (map byte_hex hw) '':''"

definition flag_names :: "(32 word \<times> string) list" where
  "flag_names = [(1, ''up''), (2, ''broadcast''), (4, ''loopback''), (8, ''pointtopoint''),
     (16, ''multicast''), (32, ''running'')]"

definition flags_string :: "32 word \<Rightarrow> string" where
  "flags_string f =
     (let s = str_join (map snd (filter (\<lambda>(m, _). f AND m \<noteq> 0) flag_names)) ''|''
      in if s = [] then ''0'' else s)"

definition int_string :: "int \<Rightarrow> string" where
  "int_string i = (if i < 0 then CHR ''-'' # nat_string (nat (- i)) else nat_string (nat i))"

definition describe_interface :: "iface \<Rightarrow> string" where
  "describe_interface ifi =
     if_name ifi @ ''(index='' @ int_string (if_index ifi) @ '' flags='' @ flags_string (if_flags ifi)
       @ '' mac='' @ (if if_hw ifi = [] then ''none'' else mac_string (if_hw ifi)) @ '')''"

definition describe_interfaces :: "iface list \<Rightarrow> string" where
  "describe_interfaces interfaces =
     (if interfaces = [] then ''none'' else str_join (map describe_interface interfaces) '', '')"

section \<open>Candidates\<close>

definition auto_ifname :: string where
  "auto_ifname = ''auto''"

text \<open>The requested interface, when there is one and it can be used.\<close>

definition requested_interfaces :: "string \<Rightarrow> iface list \<Rightarrow> iface list" where
  "requested_interfaces ifname all_interfaces =
     (let ifname = trim_space ifname in
        if ifname \<noteq> [] \<and> \<not> equal_fold ifname auto_ifname then
          (case interface_by_name_from_list all_interfaces ifname of
             Some ifi \<Rightarrow> if usable ifi then [ifi] else []
           | None \<Rightarrow> [])
        else [])"

text \<open>The loop over the interfaces of the default route; \<open>None\<close> is a nil function.\<close>

fun route_interfaces_loop :: "(int \<Rightarrow> error + iface) \<Rightarrow> int list \<Rightarrow> iface list" where
  "route_interfaces_loop by_index [] = []"
| "route_interfaces_loop by_index (index # indexes) =
     (if index \<le> 0 then route_interfaces_loop by_index indexes
      else case by_index index of
        Inl e \<Rightarrow> route_interfaces_loop by_index indexes
      | Inr ifi \<Rightarrow>
          if usable ifi then ifi # route_interfaces_loop by_index indexes
          else route_interfaces_loop by_index indexes)"

definition route_interfaces ::
  "(int \<Rightarrow> error + iface) \<Rightarrow> (error + int list) option \<Rightarrow> iface list"
where
  "route_interfaces by_index route_indexes =
     (case route_indexes of
        Some (Inr indexes) \<Rightarrow> route_interfaces_loop by_index indexes
      | _ \<Rightarrow> [])"

definition add_all :: "string \<Rightarrow> iface list \<Rightarrow> candidate list \<Rightarrow> candidate list" where
  "add_all reason ifs cs = foldl (\<lambda>cs ifi. add_interface_candidate cs ifi reason) cs ifs"

definition resolve_interface_candidates_with ::
  "string \<Rightarrow> error + iface list \<Rightarrow> (int \<Rightarrow> error + iface) \<Rightarrow> (error + int list) option \<Rightarrow>
   (iface \<Rightarrow> bool) option \<Rightarrow> error + candidate list"
where
  "resolve_interface_candidates_with ifname interfaces by_index route_indexes has_ipv6 =
     (case interfaces of
        Inl e \<Rightarrow> Inl (Errorf ''list network interfaces: %w'' [] (Some e))
      | Inr all_interfaces \<Rightarrow>
          let candidates = add_all ''requested'' (requested_interfaces ifname all_interfaces) [];
              candidates = add_all ''default-ipv6-route''
                (route_interfaces by_index route_indexes) candidates;
              candidates = add_all ''interface-ipv6-address''
                (filter (\<lambda>ifi. usable ifi \<and> (case has_ipv6 of None \<Rightarrow> False | Some f \<Rightarrow> f ifi))
                  all_interfaces) candidates;
              candidates = add_all ''interface-scan'' (filter usable all_interfaces) candidates
          in if candidates = [] then
               Inl (Errorf ''no usable network interface found (need an up non-loopback multicast interface with a 6-byte MAC); available interfaces: %s''
                 [describe_interfaces all_interfaces] None)
             else Inr candidates)"

section \<open>Laws\<close>

text \<open>The indexes of the candidates: a new one goes to the end, a known one changes nothing.\<close>

abbreviation cand_index :: "candidate \<Rightarrow> int" where
  "cand_index c \<equiv> if_index (cand_if c)"

lemma add_candidate_indexes:
  "map cand_index (add_interface_candidate cs ifi reason) =
     (if if_index ifi \<in> set (map cand_index cs) then map cand_index cs
      else map cand_index cs @ [if_index ifi])"
  by (induction cs ifi reason rule: add_interface_candidate.induct) auto

lemma add_all_indexes:
  "map cand_index (add_all reason ifs cs) =
     foldl (\<lambda>ys x. if x \<in> set ys then ys else ys @ [x]) (map cand_index cs) (map if_index ifs)"
  unfolding add_all_def
  by (induction ifs arbitrary: cs) (simp_all add: add_candidate_indexes)

lemma add_candidate_cand:
  "c \<in> set (add_interface_candidate cs ifi reason) \<Longrightarrow>
   cand_if c = ifi \<or> (\<exists>d \<in> set cs. cand_if c = cand_if d)"
  by (induction cs ifi reason rule: add_interface_candidate.induct) (auto split: if_splits)

lemma add_all_cand:
  "c \<in> set (add_all reason ifs cs) \<Longrightarrow>
   cand_if c \<in> set ifs \<or> (\<exists>d \<in> set cs. cand_if c = cand_if d)"
proof (induction ifs arbitrary: cs)
  case Nil
  then show ?case by (auto simp: add_all_def)
next
  case (Cons i ifs)
  then have "c \<in> set (add_all reason ifs (add_interface_candidate cs i reason))"
    by (simp add: add_all_def)
  from Cons.IH [OF this] show ?case
    using add_candidate_cand [of _ cs i reason] by (metis list.set_intros(1,2))
qed

text \<open>One step of adding, seen from a candidate of the result.\<close>

lemma add_candidate_mem:
  "c' \<in> set (add_interface_candidate cs ifi r) \<Longrightarrow> distinct (map cand_index cs) \<Longrightarrow>
     c' \<in> set cs \<and> cand_index c' \<noteq> if_index ifi \<or>
     (\<exists>c \<in> set cs. cand_index c = if_index ifi \<and>
        c' = (if str_contains (cand_reason c) r then c
              else c\<lparr>cand_reason := cand_reason c @ '','' @ r\<rparr>)) \<or>
     if_index ifi \<notin> set (map cand_index cs) \<and> c' = \<lparr>cand_if = ifi, cand_reason = r\<rparr>"
proof (induction cs ifi r rule: add_interface_candidate.induct)
  case (2 c cs ifi r)
  show ?case
  proof (cases "cand_index c = if_index ifi")
    case True
    have "\<forall>d \<in> set cs. cand_index d \<noteq> if_index ifi" using True "2.prems"(2) by force
    with True "2.prems"(1) show ?thesis by (auto split: if_splits)
  next
    case False
    show ?thesis
    proof (cases "c' = c")
      case True
      with False show ?thesis by simp
    next
      case neq: False
      with False "2.prems" have "c' \<in> set (add_interface_candidate cs ifi r)" by simp
      moreover have "distinct (map cand_index cs)" using "2.prems"(2) by simp
      ultimately consider
        "c' \<in> set cs" "cand_index c' \<noteq> if_index ifi"
      | d where "d \<in> set cs" "cand_index d = if_index ifi"
          "c' = (if str_contains (cand_reason d) r then d
            else d\<lparr>cand_reason := cand_reason d @ '','' @ r\<rparr>)"
      | "if_index ifi \<notin> set (map cand_index cs)" "c' = \<lparr>cand_if = ifi, cand_reason = r\<rparr>"
        using "2.IH" [OF False] by blast
      then show ?thesis
      proof cases
        case 2
        then have "d \<in> set (c # cs)" by simp
        with 2 show ?thesis by blast
      qed (use False in auto)
    qed
  qed
qed simp

text \<open>The four reasons: none contains another one.\<close>

definition known_reasons :: "string list" where
  "known_reasons = [''requested'', ''default-ipv6-route'', ''interface-ipv6-address'', ''interface-scan'']"

lemma known_reasons_apart:
  "list_all (\<lambda>r. CHR '','' \<notin> set r \<and> list_all (\<lambda>s. str_contains s r = (s = r)) known_reasons)
     known_reasons"
  by code_simp

lemma known_reason_contains:
  "r \<in> set known_reasons \<Longrightarrow> s \<in> set known_reasons \<Longrightarrow> str_contains s r \<longleftrightarrow> s = r"
  "r \<in> set known_reasons \<Longrightarrow> CHR '','' \<notin> set r"
  using known_reasons_apart by (auto simp: list_all_iff)

lemma contains_join:
  "rs \<noteq> [] \<Longrightarrow> CHR '','' \<notin> set r \<Longrightarrow>
   str_contains (str_join rs '','') r \<longleftrightarrow> (\<exists>s \<in> set rs. str_contains s r)"
  by (induction rs "'',''" rule: str_join.induct) (auto simp: str_contains_sep)

lemma contains_known:
  "rs \<noteq> [] \<Longrightarrow> set rs \<subseteq> set known_reasons \<Longrightarrow> r \<in> set known_reasons \<Longrightarrow>
   str_contains (str_join rs '','') r \<longleftrightarrow> r \<in> set rs"
  using known_reason_contains by (auto simp: contains_join subset_iff)

text \<open>
  The specification: the phases of the search, each a reason and the interfaces it proposes. A
  candidate's reasons are those of the phases that propose its index, and the candidates are in
  the order in which their indexes are proposed first.
\<close>

type_synonym phase = "string \<times> iface list"

definition proposes :: "phase \<Rightarrow> int \<Rightarrow> bool" where
  "proposes p i \<longleftrightarrow> i \<in> if_index ` set (snd p)"

definition reasons_for :: "phase list \<Rightarrow> int \<Rightarrow> string list" where
  "reasons_for phases i = map fst (filter (\<lambda>p. proposes p i) phases)"

definition proposed_indexes :: "phase list \<Rightarrow> int list" where
  "proposed_indexes phases = concat (map (\<lambda>p. map if_index (snd p)) phases)"

definition candidates_of :: "phase list \<Rightarrow> candidate list \<Rightarrow> bool" where
  "candidates_of phases cs \<longleftrightarrow>
     map cand_index cs = firsts (proposed_indexes phases) \<and>
     (\<forall>c \<in> set cs. cand_reason c = str_join (reasons_for phases (cand_index c)) '','')"

lemma reasons_for_iff: "reasons_for phases i = [] \<longleftrightarrow> i \<notin> set (proposed_indexes phases)"
  by (auto simp: reasons_for_def proposed_indexes_def proposes_def filter_empty_conv)

lemma reasons_for_append:
  "reasons_for (ph @ [(r, ifs)]) i = reasons_for ph i @ (if i \<in> if_index ` set ifs then [r] else [])"
  by (auto simp: reasons_for_def proposes_def)

lemma set_reasons_for: "set (reasons_for ph i) \<subseteq> fst ` set ph"
  by (auto simp: reasons_for_def)

lemma firsts_snoc: "firsts (xs @ [x]) = (if x \<in> set xs then firsts xs else firsts xs @ [x])"
  by (simp add: firsts_def)

text \<open>The reason of a candidate that a further phase proposes too.\<close>

lemma merged_reason:
  assumes known: "fst ` set ph \<subseteq> set known_reasons" "r \<in> set known_reasons" "r \<notin> fst ` set ph"
    and T: "reasons_for (ph @ [(r, ifs)]) (if_index ifi) \<noteq> []"
    and c: "cand_reason c = str_join (reasons_for (ph @ [(r, ifs)]) (if_index ifi)) '',''"
  shows "(if str_contains (cand_reason c) r then cand_reason c else cand_reason c @ '','' @ r) =
    str_join (reasons_for (ph @ [(r, ifs @ [ifi])]) (if_index ifi)) '',''"
proof -
  let ?T = "reasons_for (ph @ [(r, ifs)]) (if_index ifi)"
  have "fst ` set (ph @ [(r, ifs)]) \<subseteq> set known_reasons" using known by simp
  then have sub: "set ?T \<subseteq> set known_reasons"
    using set_reasons_for by (rule order_trans [rotated])
  have contains: "str_contains (cand_reason c) r \<longleftrightarrow> r \<in> set ?T"
    unfolding c using T sub known(2) by (rule contains_known)
  have in_T: "r \<in> set ?T \<longleftrightarrow> if_index ifi \<in> if_index ` set ifs"
    using known(3) set_reasons_for [of ph "if_index ifi"] by (auto simp: reasons_for_append)
  show ?thesis
  proof (cases "r \<in> set ?T")
    case True
    with c contains in_T show ?thesis by (auto simp: reasons_for_append)
  next
    case False
    then have "?T @ [r] = reasons_for (ph @ [(r, ifs @ [ifi])]) (if_index ifi)"
      using in_T by (auto simp: reasons_for_append)
    with False contains c show ?thesis using str_join_snoc [OF T, of r "'',''"] by metis
  qed
qed

lemma add_candidate_candidates_of:
  assumes ph: "candidates_of (ph @ [(r, ifs)]) cs"
    and known: "fst ` set ph \<subseteq> set known_reasons" "r \<in> set known_reasons" "r \<notin> fst ` set ph"
  shows "candidates_of (ph @ [(r, ifs @ [ifi])]) (add_interface_candidate cs ifi r)"
  unfolding candidates_of_def
proof (intro conjI ballI)
  have idx: "map cand_index cs = firsts (proposed_indexes (ph @ [(r, ifs)]))"
    and reason: "\<forall>c \<in> set cs. cand_reason c = str_join (reasons_for (ph @ [(r, ifs)]) (cand_index c)) '',''"
    using ph by (simp_all add: candidates_of_def)
  have set_idx: "set (map cand_index cs) = set (proposed_indexes (ph @ [(r, ifs)]))"
    using idx by simp
  show "map cand_index (add_interface_candidate cs ifi r) =
      firsts (proposed_indexes (ph @ [(r, ifs @ [ifi])]))"
  proof -
    have "proposed_indexes (ph @ [(r, ifs @ [ifi])]) =
        proposed_indexes (ph @ [(r, ifs)]) @ [if_index ifi]"
      by (simp add: proposed_indexes_def)
    then show ?thesis
      using set_idx by (simp only: add_candidate_indexes firsts_snoc idx)
  qed
  fix c'
  assume "c' \<in> set (add_interface_candidate cs ifi r)"
  moreover have "distinct (map cand_index cs)" using idx by simp
  ultimately consider
    "c' \<in> set cs" "cand_index c' \<noteq> if_index ifi"
  | c where "c \<in> set cs" "cand_index c = if_index ifi"
      "c' = (if str_contains (cand_reason c) r then c
             else c\<lparr>cand_reason := cand_reason c @ '','' @ r\<rparr>)"
  | "if_index ifi \<notin> set (map cand_index cs)" "c' = \<lparr>cand_if = ifi, cand_reason = r\<rparr>"
    using add_candidate_mem by blast
  then show "cand_reason c' = str_join (reasons_for (ph @ [(r, ifs @ [ifi])]) (cand_index c')) '',''"
  proof cases
    case 1
    with reason show ?thesis by (auto simp: reasons_for_append)
  next
    case (2 c)
    have "if_index ifi \<in> set (map cand_index cs)" using 2 by force
    then have T: "reasons_for (ph @ [(r, ifs)]) (if_index ifi) \<noteq> []"
      using set_idx by (simp only: reasons_for_iff) simp
    have "cand_reason c = str_join (reasons_for (ph @ [(r, ifs)]) (if_index ifi)) '',''"
      using 2 reason by simp
    from merged_reason [OF known T this] 2 show ?thesis by (auto split: if_splits)
  next
    case 3
    then have "reasons_for (ph @ [(r, ifs)]) (if_index ifi) = []"
      using set_idx by (simp only: reasons_for_iff) simp
    with 3 show ?thesis by (auto simp: reasons_for_append split: if_splits)
  qed
qed

lemma add_all_candidates_of:
  assumes "candidates_of ph cs" "fst ` set ph \<subseteq> set known_reasons" "r \<in> set known_reasons"
    "r \<notin> fst ` set ph"
  shows "candidates_of (ph @ [(r, ifs)]) (add_all r ifs cs)"
proof (induction ifs rule: rev_induct)
  case Nil
  have "candidates_of (ph @ [(r, [])]) cs"
    using assms(1) by (simp add: candidates_of_def proposed_indexes_def reasons_for_append)
  then show ?case by (simp add: add_all_def)
next
  case (snoc i ifs)
  from add_candidate_candidates_of [OF snoc assms(2-4)] show ?case by (simp add: add_all_def)
qed

text \<open>The phases of the search, in the order of the code.\<close>

definition search_phases ::
  "string \<Rightarrow> iface list \<Rightarrow> (int \<Rightarrow> error + iface) \<Rightarrow> (error + int list) option \<Rightarrow>
   (iface \<Rightarrow> bool) option \<Rightarrow> phase list"
where
  "search_phases ifname all by_index route_indexes has_ipv6 =
     [(''requested'', requested_interfaces ifname all),
      (''default-ipv6-route'', route_interfaces by_index route_indexes),
      (''interface-ipv6-address'',
        filter (\<lambda>ifi. usable ifi \<and> (case has_ipv6 of None \<Rightarrow> False | Some f \<Rightarrow> f ifi)) all),
      (''interface-scan'', filter usable all)]"

definition search_all :: "phase list \<Rightarrow> candidate list" where
  "search_all phases = foldl (\<lambda>cs p. add_all (fst p) (snd p) cs) [] phases"

lemma search_all_snoc: "search_all (ph @ [p]) = add_all (fst p) (snd p) (search_all ph)"
  by (simp add: search_all_def)

lemma resolve_search:
  "resolve_interface_candidates_with ifname (Inr all) by_index routes has6 =
     (let cs = search_all (search_phases ifname all by_index routes has6) in
        if cs = [] then
          Inl (Errorf ''no usable network interface found (need an up non-loopback multicast interface with a 6-byte MAC); available interfaces: %s''
            [describe_interfaces all] None)
        else Inr cs)"
  by (simp add: resolve_interface_candidates_with_def search_all_def search_phases_def Let_def)

lemma search_all_candidates_of:
  "fst ` set ph \<subseteq> set known_reasons \<Longrightarrow> distinct (map fst ph) \<Longrightarrow> candidates_of ph (search_all ph)"
proof (induction ph rule: rev_induct)
  case Nil
  show ?case by (simp add: candidates_of_def proposed_indexes_def search_all_def)
next
  case (snoc p ph)
  then have "candidates_of ph (search_all ph)" by auto
  then have "candidates_of (ph @ [(fst p, snd p)]) (add_all (fst p) (snd p) (search_all ph))"
    by (rule add_all_candidates_of) (use snoc.prems in auto)
  then show ?case by (simp add: search_all_snoc)
qed

lemma search_candidates_of:
  "candidates_of (search_phases ifname all by_index routes has6)
     (search_all (search_phases ifname all by_index routes has6))"
  by (rule search_all_candidates_of) (simp_all add: search_phases_def known_reasons_def)

lemma resolve_ok:
  "resolve_interface_candidates_with ifname (Inr all) by_index routes has6 = Inr cs \<Longrightarrow>
   cs \<noteq> [] \<and> cs = search_all (search_phases ifname all by_index routes has6)"
  by (auto simp: resolve_search Let_def split: if_splits)

lemma resolve_candidates_of:
  "resolve_interface_candidates_with ifname (Inr all) by_index routes has6 = Inr cs \<Longrightarrow>
   candidates_of (search_phases ifname all by_index routes has6) cs"
  using search_candidates_of resolve_ok by blast

lemma resolve_error_iff:
  "is_ok (resolve_interface_candidates_with ifname (Inr all) by_index routes has6) \<longleftrightarrow>
   proposed_indexes (search_phases ifname all by_index routes has6) \<noteq> []"
proof -
  let ?ph = "search_phases ifname all by_index routes has6"
  have "map cand_index (search_all ?ph) = firsts (proposed_indexes ?ph)"
    using search_candidates_of by (simp add: candidates_of_def)
  then have "search_all ?ph = [] \<longleftrightarrow> proposed_indexes ?ph = []"
    by (metis firsts_eq_Nil map_is_Nil_conv)
  then show ?thesis by (simp add: resolve_search Let_def is_ok_def)
qed

lemma search_all_cand:
  "c \<in> set (search_all ph) \<Longrightarrow> \<exists>p \<in> set ph. cand_if c \<in> set (snd p)"
proof (induction ph arbitrary: c rule: rev_induct)
  case Nil
  then show ?case by (simp add: search_all_def)
next
  case (snoc p ph)
  then have "c \<in> set (add_all (fst p) (snd p) (search_all ph))" by (simp add: search_all_snoc)
  from add_all_cand [OF this] snoc.IH show ?case by force
qed

lemma requested_usable: "i \<in> set (requested_interfaces ifname all) \<Longrightarrow> usable i"
  apply (simp only: requested_interfaces_def Let_def)
  apply (split if_split_asm)
   apply (split option.split_asm)
    apply simp
   apply (split if_split_asm)
    apply simp_all
  done

lemma route_loop_usable: "i \<in> set (route_interfaces_loop by_index ixs) \<Longrightarrow> usable i"
  by (induction ixs) (auto split: if_splits sum.splits)

lemma route_usable: "i \<in> set (route_interfaces by_index routes) \<Longrightarrow> usable i"
  by (auto simp: route_interfaces_def split: option.splits sum.splits intro: route_loop_usable)

lemma resolve_usable:
  assumes "resolve_interface_candidates_with ifname (Inr all) by_index routes has6 = Inr cs"
    "c \<in> set cs"
  shows "usable (cand_if c)"
proof -
  from assms obtain p where "p \<in> set (search_phases ifname all by_index routes has6)"
      "cand_if c \<in> set (snd p)"
    using resolve_ok search_all_cand by blast
  then show ?thesis
    by (auto simp: search_phases_def intro: requested_usable route_usable)
qed

text \<open>
  \<open>defaultIPv6RouteIndexes\<close> on Linux, over the answer of netlink's \<open>RouteGet\<close> for \<open>2000::\<close> (the
  link index of each route), and on a platform without a lookup.
\<close>

definition default_ipv6_route_indexes_linux :: "error + int list \<Rightarrow> error + int list" where
  "default_ipv6_route_indexes_linux routes =
     (case routes of
        Inl e \<Rightarrow> Inl e
      | Inr links \<Rightarrow>
          let indexes = filter (\<lambda>l. l > 0) links in
            if indexes = [] then Inl (Errorf ''IPv6 default route has no usable interface'' [] None)
            else Inr indexes)"

definition default_ipv6_route_indexes_unsupported :: "error + int list" where
  "default_ipv6_route_indexes_unsupported =
     Inl (Errorf ''IPv6 default-route lookup is not available on this platform'' [] None)"

section \<open>Properties\<close>

lemma proposed_empty:
  "proposed_indexes (search_phases ifname all by_index routes has_addr) = [] \<longleftrightarrow>
     route_interfaces by_index routes = [] \<and> (\<forall>ifi \<in> set all. \<not> usable ifi)"
proof -
  have "requested_interfaces ifname all = []" if "\<forall>ifi \<in> set all. \<not> usable ifi"
    using that
    by (auto simp: requested_interfaces_def interface_by_name_from_list_def Let_def find_Some_iff
        split: option.split)
  then show ?thesis by (auto simp: proposed_indexes_def search_phases_def filter_empty_conv)
qed

text \<open>A requested interface that is usable comes first.\<close>

lemma requested_first:
  assumes c: "candidates_of (search_phases ifname all by_index routes has_addr) cs" and "cs \<noteq> []"
    and rq: "requested_interfaces ifname all = rq" "rq \<noteq> []"
  shows "cand_index (hd cs) = if_index (hd rq) \<and> has_prefix (cand_reason (hd cs)) ''requested''"
proof -
  let ?ph = "search_phases ifname all by_index routes has_addr"
  have "map cand_index cs = firsts (if_index (hd rq) # concat (map (\<lambda>p. map if_index (snd p)) ((''requested'', tl rq) # tl ?ph)))"
    using c rq by (cases rq) (simp_all add: candidates_of_def proposed_indexes_def search_phases_def)
  then have hd: "cand_index (hd cs) = if_index (hd rq)"
    using \<open>cs \<noteq> []\<close> by (cases cs) (simp_all add: firsts_Cons)
  have "proposes (''requested'', rq) (if_index (hd rq))" using rq by (simp add: proposes_def)
  then obtain rest where "reasons_for ?ph (if_index (hd rq)) = ''requested'' # rest"
    using rq(1) by (simp add: reasons_for_def search_phases_def)
  moreover have "cand_reason (hd cs) = str_join (reasons_for ?ph (if_index (hd rq))) '',''"
    using c \<open>cs \<noteq> []\<close> hd by (auto simp: candidates_of_def)
  ultimately show ?thesis using hd by (cases rest) (auto simp: has_prefix_def)
qed

text \<open>C29: the candidates for the responder's interface. Once the interfaces are listed, the search
  fails if and only if neither a default route nor the list gives a usable interface. Otherwise the
  candidates are the proposed interfaces, each once, in the order of the first phase that proposed
  it (the requested name, the default routes, an IPv6 address, the scan of all interfaces), each with
  the reasons of all the phases that proposed it, and all are up, multicast, not loopback, with a MAC of six bytes.
  A requested interface that is usable comes first.\<close>

theorem interface_candidates:
  "case resolve_interface_candidates_with ifname (Inr all) by_index routes has_addr of
     Inl e \<Rightarrow> route_interfaces by_index routes = [] \<and> (\<forall>ifi \<in> set all. \<not> usable ifi)
   | Inr cs \<Rightarrow>
       \<not> (route_interfaces by_index routes = [] \<and> (\<forall>ifi \<in> set all. \<not> usable ifi)) \<and>
       map cand_index cs =
         firsts (proposed_indexes (search_phases ifname all by_index routes has_addr)) \<and>
       (\<forall>c \<in> set cs. usable (cand_if c) \<and>
          cand_reason c = str_join
            (reasons_for (search_phases ifname all by_index routes has_addr) (cand_index c)) '','') \<and>
       (requested_interfaces ifname all \<noteq> [] \<longrightarrow>
          cand_index (hd cs) = if_index (hd (requested_interfaces ifname all)) \<and>
          has_prefix (cand_reason (hd cs)) ''requested'')"
proof (cases "resolve_interface_candidates_with ifname (Inr all) by_index routes has_addr")
  case (Inl e)
  then show ?thesis
    using resolve_error_iff [of ifname all by_index routes has_addr] proposed_empty [of ifname all by_index routes has_addr]
    by (simp add: is_ok_def)
next
  case (Inr cs)
  let ?ph = "search_phases ifname all by_index routes has_addr"
  have "\<not> (route_interfaces by_index routes = [] \<and> (\<forall>ifi \<in> set all. \<not> usable ifi))"
    using resolve_error_iff [of ifname all by_index routes has_addr] proposed_empty [of ifname all by_index routes has_addr]
      Inr by (auto simp: is_ok_def)
  moreover have c: "candidates_of ?ph cs" by (rule resolve_candidates_of [OF Inr])
  moreover have req: "requested_interfaces ifname all \<noteq> [] \<longrightarrow>
      cand_index (hd cs) = if_index (hd (requested_interfaces ifname all)) \<and>
      has_prefix (cand_reason (hd cs)) ''requested''"
    using requested_first [OF c conjunct1 [OF resolve_ok [OF Inr]] refl] by blast
  moreover have "usable (cand_if c)" if "c \<in> set cs" for c using Inr that by (rule resolve_usable)
  ultimately show ?thesis
    unfolding Inr sum.case using req by (intro conjI ballI) (auto simp: candidates_of_def)
qed

definition sample_interfaces :: "iface list" where
  "sample_interfaces =
     [\<lparr>if_index = 1, if_name = ''lo'', if_hw = [], if_flags = 5\<rparr>,
      \<lparr>if_index = 2, if_name = ''eth0'', if_hw = [2, 0, 0, 0, 0, 1], if_flags = 19\<rparr>,
      \<lparr>if_index = 3, if_name = ''br0'', if_hw = [2, 0, 0, 0, 0, 2], if_flags = 19\<rparr>]"

theorem interface_candidates_witness:
  "case resolve_interface_candidates_with ''br0'' (Inr sample_interfaces)
     (\<lambda>i. Inr (sample_interfaces ! nat (i - 1))) (Some (Inr [2])) None of
     Inl e \<Rightarrow> False
   | Inr cs \<Rightarrow> map cand_index cs = [3, 2] \<and> has_prefix (cand_reason (hd cs)) ''requested''"
proof -
  let ?r = "resolve_interface_candidates_with ''br0'' (Inr sample_interfaces)
     (\<lambda>i. Inr (sample_interfaces ! nat (i - 1))) (Some (Inr [2])) None"
  obtain cs where cs: "?r = Inr cs" "map cand_index cs = [3, 2]"
  proof -
    have "(case ?r of Inl e \<Rightarrow> False | Inr cs \<Rightarrow> map cand_index cs = [3, 2])" by code_simp
    then show ?thesis using that by (cases ?r) simp_all
  qed
  have "requested_interfaces ''br0'' sample_interfaces \<noteq> []" by code_simp
  then have "has_prefix (cand_reason (hd cs)) ''requested''"
    using interface_candidates [where ifname = "''br0''" and all = sample_interfaces
        and by_index = "\<lambda>i. Inr (sample_interfaces ! nat (i - 1))" and routes = "Some (Inr [2])"
        and has_addr = None] cs(1) by simp
  with cs show ?thesis by simp
qed

end
