(* ===== verification/Ndp_Frames.thy ===== *)
theory Ndp_Frames
  imports Netip_Text
begin

text \<open>
  \<open>ndp.go\<close> and \<open>hostinfo_types.go\<close>: the frames the responder sends, the packet filter it
  installs and the capture of neighbor solicitations.

  The code fills the layer structures of the gopacket library and hands them to
  \<open>gopacket.SerializeLayers\<close>, always with lengths fixed and checksums computed. The structures are
  the datatype \<open>layer\<close>, with the fields the code sets; the serializer, the packet decoder and the
  machine that runs the packet filter are parameters.
\<close>

section \<open>Layers\<close>

record ethernet =
  eth_src :: bytes
  eth_dst :: bytes
  eth_type :: "16 word"

record ipv6 =
  ip6_version :: byte
  ip6_src :: bytes
  ip6_dst :: bytes
  ip6_next :: byte
  ip6_hop :: byte

record icmp6_option =
  opt_type :: byte
  opt_data :: bytes

text \<open>
  \<open>ICMPv6\<close> carries its type and code and the IPv6 layer set by \<open>SetNetworkLayerForChecksum\<close>.
\<close>

datatype layer =
    Ethernet ethernet
  | IPv6 ipv6
  | ICMPv6 byte byte ipv6
  | NeighborSolicitation bytes "icmp6_option list"
  | NeighborAdvertisement byte bytes "icmp6_option list"

type_synonym serializer = "layer list \<Rightarrow> error + bytes"

record host_info =
  host_mac :: bytes
  gateway_ip :: addr

definition ethertype_ipv6 :: "16 word" where "ethertype_ipv6 = 0x86dd"
definition proto_icmp6 :: byte where "proto_icmp6 = 58"
definition type_solicitation :: byte where "type_solicitation = 135"
definition type_advertisement :: byte where "type_advertisement = 136"
definition opt_source_address :: byte where "opt_source_address = 1"
definition opt_target_address :: byte where "opt_target_address = 2"
definition opt_nonce :: byte where "opt_nonce = 0x0e"

definition flag_router :: byte where "flag_router = 0x80"
definition flag_solicited :: byte where "flag_solicited = 0x40"
definition flag_override :: byte where "flag_override = 0x20"

text \<open>\<open>net.IPv6linklocalallnodes\<close>, \<open>ff02::1\<close>.\<close>

definition all_nodes :: bytes where
  "all_nodes = [0xff, 0x02] @ replicate 13 0 @ [0x01]"

definition icmp6_packet :: "bytes \<Rightarrow> bytes \<Rightarrow> bytes \<Rightarrow> bytes \<Rightarrow> byte \<Rightarrow> layer \<Rightarrow> layer list" where
  "icmp6_packet src_mac dst_mac src dst typ msg =
     (let ip6 = \<lparr>ip6_version = 6, ip6_src = src, ip6_dst = dst, ip6_next = proto_icmp6,
                 ip6_hop = 255\<rparr>
      in [Ethernet \<lparr>eth_src = src_mac, eth_dst = dst_mac, eth_type = ethertype_ipv6\<rparr>,
          IPv6 ip6, ICMPv6 typ 0 ip6, msg])"

section \<open>Unsolicited advertisement\<close>

definition unsolicited_layers :: "host_info \<Rightarrow> addr \<Rightarrow> layer list" where
  "unsolicited_layers hi target =
     icmp6_packet (host_mac hi) [0x33, 0x33, 0x00, 0x00, 0x00, 0x01] (as_slice target) all_nodes
       type_advertisement
       (NeighborAdvertisement (flag_router OR flag_override) (as_slice target)
         [\<lparr>opt_type = opt_target_address, opt_data = host_mac hi\<rparr>])"

definition unsolicited_advertisement :: "serializer \<Rightarrow> host_info \<Rightarrow> addr \<Rightarrow> error + bytes" where
  "unsolicited_advertisement ser hi target =
     (if \<not> is_valid target \<or> \<not> is6 target \<or> is_unspecified target \<or> is_multicast target
      then Inl (Errorf ''invalid IPv6 advertisement target: %s'' [addr_string target] None)
      else if length (host_mac hi) \<noteq> 6 then Inl (Errorf ''invalid host MAC address'' [] None)
      else ser (unsolicited_layers hi target))"

section \<open>Solicitations\<close>

text \<open>The multicast MAC and the solicited-node group for the last three bytes of an address.\<close>

definition solicited_mac :: "bytes \<Rightarrow> bytes" where
  "solicited_mac ip16 = [0x33, 0x33, 0xff, ip16 ! 13, ip16 ! 14, ip16 ! 15]"

definition solicited_node :: "bytes \<Rightarrow> bytes" where
  "solicited_node ip16 =
     [0xff, 0x02] @ replicate 9 0 @ [0x01, 0xff, ip16 ! 13, ip16 ! 14, ip16 ! 15]"

text \<open>\<open>Gratuitous\<close>; the nonce is six random bytes.\<close>

definition gratuitous_layers :: "bytes \<Rightarrow> host_info \<Rightarrow> addr \<Rightarrow> bytes \<Rightarrow> layer list" where
  "gratuitous_layers nonce hi target ip16 =
     icmp6_packet (host_mac hi) (solicited_mac ip16) (replicate 16 0) (solicited_node ip16)
       type_solicitation
       (NeighborSolicitation (as_slice target) [\<lparr>opt_type = opt_nonce, opt_data = nonce\<rparr>])"

definition gratuitous :: "serializer \<Rightarrow> bytes \<Rightarrow> host_info \<Rightarrow> addr \<Rightarrow> error + bytes" where
  "gratuitous ser nonce hi target =
     (case as16 target of
        Inl e \<Rightarrow> Inl e
      | Inr ip16 \<Rightarrow> ser (gratuitous_layers nonce hi target ip16))"

definition solicit_layers :: "host_info \<Rightarrow> addr \<Rightarrow> bytes \<Rightarrow> layer list" where
  "solicit_layers hi source gw16 =
     icmp6_packet (host_mac hi) (solicited_mac gw16) (as_slice source) (solicited_node gw16)
       type_solicitation
       (NeighborSolicitation (as_slice (gateway_ip hi))
         [\<lparr>opt_type = opt_source_address, opt_data = host_mac hi\<rparr>])"

definition solicit :: "serializer \<Rightarrow> host_info \<Rightarrow> addr \<Rightarrow> error + bytes" where
  "solicit ser hi source =
     (case as16 (gateway_ip hi) of
        Inl e \<Rightarrow> Inl e
      | Inr gw16 \<Rightarrow> ser (solicit_layers hi source gw16))"

section \<open>Answering a solicitation\<close>

record neigh_solicitation =
  router_mac :: bytes
  router_ip :: addr
  dest_ip :: addr
  target_ip :: addr

definition neigh_solicitation_string :: "neigh_solicitation \<Rightarrow> string" where
  "neigh_solicitation_string ns =
     (if is_multicast (dest_ip ns)
      then ''who-has '' @ addr_string (target_ip ns) @ '' tell '' @ addr_string (router_ip ns)
      else ''is-alive '' @ addr_string (target_ip ns) @ '' tell '' @ addr_string (router_ip ns))"

definition advert_flags :: "neigh_solicitation \<Rightarrow> byte" where
  "advert_flags ns =
     (if is_multicast (dest_ip ns) then flag_router OR flag_solicited OR flag_override
      else flag_router OR flag_solicited)"

definition respond_layers :: "neigh_solicitation \<Rightarrow> host_info \<Rightarrow> layer list" where
  "respond_layers ns hi =
     icmp6_packet (host_mac hi) (router_mac ns) (as_slice (target_ip ns)) (as_slice (router_ip ns))
       type_advertisement
       (NeighborAdvertisement (advert_flags ns) (as_slice (target_ip ns))
         [\<lparr>opt_type = opt_target_address, opt_data = host_mac hi\<rparr>])"

definition respond :: "serializer \<Rightarrow> neigh_solicitation \<Rightarrow> host_info \<Rightarrow> error + bytes" where
  "respond ser ns hi = ser (respond_layers ns hi)"

section \<open>Capture\<close>

datatype layer_type = LTEthernet | LTIPv6 | LTICMPv6 | LTNeighborSolicitation | LTOther

text \<open>
  What \<open>DecodeLayers\<close> leaves: the types of the layers it decoded and the fields of the layer
  structures the capture loop reads. The structures are reused for every packet, so the fields
  belong to this packet only when their layer was decoded.
\<close>

record decoded =
  dec_layers :: "layer_type list"
  dec_eth_src :: bytes
  dec_ip6_src :: bytes
  dec_ip6_dst :: bytes
  dec_target :: bytes

definition slice_addr :: "bytes \<Rightarrow> addr" where
  "slice_addr bs = (case addr_from_slice bs of None \<Rightarrow> NoAddr | Some a \<Rightarrow> unmap a)"

text \<open>\<open>copy\<close> into an array of six bytes.\<close>

definition mac_array :: "bytes \<Rightarrow> bytes" where
  "mac_array bs = take 6 (bs @ replicate 6 0)"

definition decoded_solicitation :: "decoded \<Rightarrow> neigh_solicitation option" where
  "decoded_solicitation d =
     (if length (dec_layers d) = 4 \<and> dec_layers d ! 3 = LTNeighborSolicitation then
        Some \<lparr>router_mac = mac_array (dec_eth_src d), router_ip = slice_addr (dec_ip6_src d),
              dest_ip = slice_addr (dec_ip6_dst d), target_ip = slice_addr (dec_target d)\<rparr>
      else None)"

text \<open>
  One iteration of the capture goroutine: the read fails and closes the channel, or a packet is
  read and decoded, and a solicitation is sent unless the buffer of 64 is full. Once it has closed
  the channel the goroutine has returned: nothing it could read changes the channel any more.
\<close>

datatype read_result = ReadFailed | ReadPacket bytes

record capture =
  cap_queue :: "neigh_solicitation list"
  cap_closed :: bool

definition capture_step :: "(bytes \<Rightarrow> error + decoded) \<Rightarrow> read_result \<Rightarrow> capture \<Rightarrow> capture" where
  "capture_step decode r c =
     (if cap_closed c then c
      else case r of
        ReadFailed \<Rightarrow> c\<lparr>cap_closed := True\<rparr>
      | ReadPacket pkt \<Rightarrow>
          (case decode pkt of
             Inl e \<Rightarrow> c
           | Inr d \<Rightarrow>
               (case decoded_solicitation d of
                  None \<Rightarrow> c
                | Some ns \<Rightarrow> c\<lparr>cap_queue := try_send 64 ns (cap_queue c)\<rparr>)))"

definition capture_start :: capture where
  "capture_start = \<lparr>cap_queue = [], cap_closed = False\<rparr>"

section \<open>The packet filter\<close>

record bpf_instr =
  bpf_op :: "16 word"
  bpf_jt :: nat
  bpf_jf :: nat
  bpf_k :: "32 word"

definition bpf_filter :: "bpf_instr list" where
  "bpf_filter =
     [\<lparr>bpf_op = 0x28, bpf_jt = 0, bpf_jf = 0, bpf_k = 0x0000000c\<rparr>,
      \<lparr>bpf_op = 0x15, bpf_jt = 0, bpf_jf = 8, bpf_k = 0x000086dd\<rparr>,
      \<lparr>bpf_op = 0x30, bpf_jt = 0, bpf_jf = 0, bpf_k = 0x00000014\<rparr>,
      \<lparr>bpf_op = 0x15, bpf_jt = 3, bpf_jf = 0, bpf_k = 0x0000003a\<rparr>,
      \<lparr>bpf_op = 0x15, bpf_jt = 0, bpf_jf = 5, bpf_k = 0x0000002c\<rparr>,
      \<lparr>bpf_op = 0x30, bpf_jt = 0, bpf_jf = 0, bpf_k = 0x00000036\<rparr>,
      \<lparr>bpf_op = 0x15, bpf_jt = 0, bpf_jf = 3, bpf_k = 0x0000003a\<rparr>,
      \<lparr>bpf_op = 0x30, bpf_jt = 0, bpf_jf = 0, bpf_k = 0x00000036\<rparr>,
      \<lparr>bpf_op = 0x15, bpf_jt = 0, bpf_jf = 1, bpf_k = 0x00000087\<rparr>,
      \<lparr>bpf_op = 0x6, bpf_jt = 0, bpf_jf = 0, bpf_k = 0x00040000\<rparr>,
      \<lparr>bpf_op = 0x6, bpf_jt = 0, bpf_jf = 0, bpf_k = 0x00000000\<rparr>]"

text \<open>
  The machine that runs the filter is in the kernel. \<open>exec prog pc a pkt\<close> is the value the program
  returns for a packet from instruction \<open>pc\<close> with accumulator \<open>a\<close>, 0 meaning that the packet is
  dropped. The laws are those of the four instructions the filter consists of: load a half word
  or a byte at an absolute offset (a load outside the packet drops it), jump if equal, return.
\<close>

definition be16 :: "byte \<Rightarrow> byte \<Rightarrow> 32 word" where
  "be16 h l = push_bit 8 (ucast h) OR ucast l"

locale bpf_machine =
  fixes exec :: "bpf_instr list \<Rightarrow> nat \<Rightarrow> 32 word \<Rightarrow> bytes \<Rightarrow> 32 word"
  assumes load_half: "pc < length prog \<Longrightarrow> bpf_op (prog ! pc) = 0x28 \<Longrightarrow>
      exec prog pc a pkt =
        (if unat (bpf_k (prog ! pc)) + 2 \<le> length pkt
         then exec prog (Suc pc) (be16 (pkt ! unat (bpf_k (prog ! pc)))
           (pkt ! Suc (unat (bpf_k (prog ! pc))))) pkt
         else 0)"
    and load_byte: "pc < length prog \<Longrightarrow> bpf_op (prog ! pc) = 0x30 \<Longrightarrow>
      exec prog pc a pkt =
        (if unat (bpf_k (prog ! pc)) < length pkt
         then exec prog (Suc pc) (ucast (pkt ! unat (bpf_k (prog ! pc)))) pkt
         else 0)"
    and jump_equal: "pc < length prog \<Longrightarrow> bpf_op (prog ! pc) = 0x15 \<Longrightarrow>
      exec prog pc a pkt =
        exec prog (Suc (pc + (if a = bpf_k (prog ! pc) then bpf_jt (prog ! pc)
          else bpf_jf (prog ! pc)))) a pkt"
    and return: "pc < length prog \<Longrightarrow> bpf_op (prog ! pc) = 0x6 \<Longrightarrow>
      exec prog pc a pkt = bpf_k (prog ! pc)"

text \<open>An executable machine: jumps only go forward, so it terminates.\<close>

function bpf_exec :: "bpf_instr list \<Rightarrow> nat \<Rightarrow> 32 word \<Rightarrow> bytes \<Rightarrow> 32 word" where
  "bpf_exec prog pc a pkt =
     (if length prog \<le> pc then 0
      else
        let i = prog ! pc; k = unat (bpf_k i) in
          if bpf_op i = 0x28 then
            if k + 2 \<le> length pkt
            then bpf_exec prog (Suc pc) (be16 (pkt ! k) (pkt ! Suc k)) pkt
            else 0
          else if bpf_op i = 0x30 then
            if k < length pkt then bpf_exec prog (Suc pc) (ucast (pkt ! k)) pkt else 0
          else if bpf_op i = 0x15 then
            bpf_exec prog (Suc (pc + (if a = bpf_k i then bpf_jt i else bpf_jf i))) a pkt
          else if bpf_op i = 0x6 then bpf_k i
          else 0)"
  by pat_completeness auto
termination
  by (relation "measure (\<lambda>(prog, pc, a, pkt). length prog - pc)") auto

declare bpf_exec.simps [simp del]

interpretation bpf: bpf_machine bpf_exec
  by unfold_locales (subst bpf_exec.simps, simp add: Let_def)+

text \<open>The frames the filter is meant for: IPv6, next header ICMPv6, type neighbor solicitation.\<close>

definition solicitation_frame :: "bytes \<Rightarrow> bool" where
  "solicitation_frame pkt \<longleftrightarrow>
     54 < length pkt \<and> pkt ! 12 = 0x86 \<and> pkt ! 13 = 0xdd \<and> pkt ! 20 = 58 \<and> pkt ! 54 = 135"

lemma ucast_ucast_byte: "ucast (ucast (b :: byte) :: 32 word) = b"
  by (rule bit_word_eqI) (auto simp: bit_simps)

lemma ucast_eq_byte: "(ucast (b :: byte) :: 32 word) = ucast c \<longleftrightarrow> b = c"
  by (metis ucast_ucast_byte)

lemma be16_ethertype: "be16 h l = 0x86dd \<longleftrightarrow> h = 0x86 \<and> l = 0xdd"
proof
  assume e: "be16 h l = 0x86dd"
  have "ucast (be16 h l) = l" unfolding be16_def
    by (rule bit_word_eqI) (auto simp: bit_simps)
  moreover have "ucast (drop_bit 8 (be16 h l)) = h" unfolding be16_def
    by (rule bit_word_eqI) (auto simp: bit_simps dest: bit_imp_le_length)
  ultimately show "h = 0x86 \<and> l = 0xdd" using e by auto
qed (simp add: be16_def)

context bpf_machine
begin

lemma filter_half:
  "exec bpf_filter 0 a pkt =
     (if 14 \<le> length pkt then exec bpf_filter (Suc 0) (be16 (pkt ! 12) (pkt ! 13)) pkt else 0)"
  using load_half [of 0 bpf_filter a pkt] by (simp add: bpf_filter_def)

lemma filter_bytes:
  "exec bpf_filter 2 a pkt = (if 20 < length pkt then exec bpf_filter 3 (ucast (pkt ! 20)) pkt else 0)"
  "exec bpf_filter 5 a pkt = (if 54 < length pkt then exec bpf_filter 6 (ucast (pkt ! 54)) pkt else 0)"
  "exec bpf_filter 7 a pkt = (if 54 < length pkt then exec bpf_filter 8 (ucast (pkt ! 54)) pkt else 0)"
  using load_byte [of 2 bpf_filter a pkt] load_byte [of 5 bpf_filter a pkt]
    load_byte [of 7 bpf_filter a pkt]
  by (simp_all add: bpf_filter_def)

lemma filter_jumps:
  "exec bpf_filter (Suc 0) a pkt = exec bpf_filter (if a = 0x86dd then 2 else 10) a pkt"
  "exec bpf_filter 3 a pkt = exec bpf_filter (if a = 0x3a then 7 else 4) a pkt"
  "exec bpf_filter 4 a pkt = exec bpf_filter (if a = 0x2c then 5 else 10) a pkt"
  "exec bpf_filter 6 a pkt = exec bpf_filter (if a = 0x3a then 7 else 10) a pkt"
  "exec bpf_filter 8 a pkt = exec bpf_filter (if a = 0x87 then 9 else 10) a pkt"
  using jump_equal [of 1 bpf_filter a pkt] jump_equal [of 3 bpf_filter a pkt]
    jump_equal [of 4 bpf_filter a pkt] jump_equal [of 6 bpf_filter a pkt]
    jump_equal [of 8 bpf_filter a pkt]
  by (simp_all add: bpf_filter_def numeral_2_eq_2)

lemma filter_returns:
  "exec bpf_filter 9 a pkt = 0x40000" "exec bpf_filter 10 a pkt = 0"
  using return [of 9 bpf_filter a pkt] return [of 10 bpf_filter a pkt]
  by (simp_all add: bpf_filter_def)

lemma byte_consts:
  "(ucast (b :: byte) :: 32 word) = 0x3a \<longleftrightarrow> b = 58"
  "(ucast (b :: byte) :: 32 word) = 0x2c \<longleftrightarrow> b = 44"
  "(ucast (b :: byte) :: 32 word) = 0x87 \<longleftrightarrow> b = 135"
  using ucast_eq_byte [of b 58] ucast_eq_byte [of b 44] ucast_eq_byte [of b 135] by simp_all

text \<open>
  The branch for a fragment header (next header 44) reads offset 54 twice and wants two different
  values there, so it never accepts a packet.
\<close>

lemma bpf_filter_exec:
  "exec bpf_filter 0 a pkt = (if solicitation_frame pkt then 0x40000 else 0)"
  by (simp add: filter_half filter_bytes filter_jumps filter_returns byte_consts be16_ethertype
      solicitation_frame_def)

end

text \<open>
  RFC 4861, sections 7.1.1 and 7.1.2: what a receiver checks of a solicitation and of an
  advertisement (the lengths and the checksum are left to the serializer), and section 4.4 on the
  solicited flag. A group address begins with the byte \<open>ff\<close>.
\<close>

definition group_bytes :: "bytes \<Rightarrow> bool" where
  "group_bytes bs \<longleftrightarrow> bs \<noteq> [] \<and> hd bs = 0xff"

definition multicast_mac :: "bytes \<Rightarrow> bytes" where
  "multicast_mac ip = [0x33, 0x33] @ drop 12 ip"

fun valid_frame :: "layer list \<Rightarrow> bool" where
  "valid_frame [Ethernet e, IPv6 p, ICMPv6 t c net, m] \<longleftrightarrow>
     eth_type e = 0x86dd \<and> ip6_version p = 6 \<and> ip6_hop p = 255 \<and> ip6_next p = 58 \<and>
     c = 0 \<and> net = p \<and> length (ip6_src p) = 16 \<and> length (ip6_dst p) = 16 \<and>
     \<not> group_bytes (ip6_src p) \<and> ip6_dst p \<noteq> replicate 16 0 \<and>
     (group_bytes (ip6_dst p) \<longrightarrow> eth_dst e = multicast_mac (ip6_dst p))"
| "valid_frame _ \<longleftrightarrow> False"

fun valid_advertisement :: "layer list \<Rightarrow> bool" where
  "valid_advertisement [Ethernet e, IPv6 p, ICMPv6 t c net, NeighborAdvertisement flags target opts] \<longleftrightarrow>
     valid_frame [Ethernet e, IPv6 p, ICMPv6 t c net, NeighborAdvertisement flags target opts] \<and>
     t = 136 \<and> length target = 16 \<and> \<not> group_bytes target \<and>
     (group_bytes (ip6_dst p) \<longrightarrow> flags AND flag_solicited = 0) \<and>
     opts = [\<lparr>opt_type = opt_target_address, opt_data = eth_src e\<rparr>] \<and> length (eth_src e) = 6"
| "valid_advertisement _ \<longleftrightarrow> False"

fun valid_solicitation :: "layer list \<Rightarrow> bool" where
  "valid_solicitation [Ethernet e, IPv6 p, ICMPv6 t c net, NeighborSolicitation target opts] \<longleftrightarrow>
     valid_frame [Ethernet e, IPv6 p, ICMPv6 t c net, NeighborSolicitation target opts] \<and>
     t = 135 \<and> length target = 16 \<and> \<not> group_bytes target \<and>
     ip6_dst p = solicited_node target \<and>
     (ip6_src p = replicate 16 0 \<longrightarrow> (\<forall>opt \<in> set opts. opt_type opt \<noteq> opt_source_address))"
| "valid_solicitation _ \<longleftrightarrow> False"

lemma hd_word_bytes: "hd (word_bytes 16 (w :: 128 word)) = ucast (drop_bit 120 w)"
  by (simp add: word_bytes_def upt_rec)

lemma group_bytes_slice:
  assumes "is6 a" "\<not> is_multicast a"
  shows "\<not> group_bytes (as_slice a)" and "length (as_slice a) = 16"
proof -
  from assms(1) obtain w z where a: "a = IP6 w z" by (auto simp: is6_iff)
  then show "length (as_slice a) = 16" by simp
  show "\<not> group_bytes (as_slice a)"
  proof
    assume "group_bytes (as_slice a)"
    then have h: "ucast (drop_bit 120 w) = (0xff :: byte)"
      by (simp add: a group_bytes_def hd_word_bytes)
    have "drop_bit 120 w = ucast (ucast (drop_bit 120 w) :: byte)"
      by (rule bit_word_eqI) (auto simp: bit_simps dest: bit_imp_le_length)
    then have hi: "v6_hi8 w = 0xff" using h by (simp add: v6_hi8_def)
    have "\<not> mapped4 w"
    proof
      assume "mapped4 w"
      then have "drop_bit 88 (drop_bit 32 w) = drop_bit 88 0xffff" by (simp add: mapped4_def)
      with hi show False by (simp add: v6_hi8_def drop_bit_drop_bit)
    qed
    with hi have "is_multicast a" by (simp add: a is_multicast_def)
    with assms(2) show False ..
  qed
qed

lemmas frame_defs = icmp6_packet_def unsolicited_layers_def gratuitous_layers_def
  solicit_layers_def respond_layers_def ethertype_ipv6_def proto_icmp6_def type_solicitation_def
  type_advertisement_def all_nodes_def solicited_mac_def solicited_node_def multicast_mac_def
  group_bytes_def flag_router_def flag_solicited_def flag_override_def opt_nonce_def
  opt_source_address_def opt_target_address_def

lemmas frame_checks = valid_frame.simps valid_advertisement.simps valid_solicitation.simps

lemma as16_six: "is6 a \<Longrightarrow> as16 a = Inr (as_slice a)"
  by (cases a) auto

lemma word_bytes_zero:
  "word_bytes 16 (w :: 128 word) = replicate 16 0 \<Longrightarrow> w = 0"
proof -
  assume z: "word_bytes 16 w = replicate 16 0"
  have b: "ucast (drop_bit (8 * (15 - i)) w) = (0 :: byte)" if "i < 16" for i
  proof -
    have "word_bytes 16 w ! i = ucast (drop_bit (8 * (15 - i)) w)"
      using that by (simp add: word_bytes_def)
    with z that show ?thesis by simp
  qed
  show "w = 0"
  proof (rule bit_word_eqI)
    fix n assume n: "n < LENGTH(128)"
    have "\<not> bit (ucast (drop_bit (8 * (n div 8)) w) :: byte) (n mod 8)"
      using b [of "15 - n div 8"] n by (simp add: less_mult_imp_div_less)
    then show "bit w n = bit 0 n" by (simp add: bit_simps)
  qed
qed

lemma cons_zeros: "(x # xs = replicate 16 (0 :: byte)) = (x = 0 \<and> xs = replicate 15 0)"
  by (auto simp: Cons_replicate_eq)

lemma unsolicited_valid:
  assumes "length (host_mac hi) = 6" "is6 target" "\<not> is_multicast target"
  shows "valid_advertisement (unsolicited_layers hi target)"
  using group_bytes_slice [OF assms(2,3)] assms
  by (simp add: frame_defs Let_def cons_zeros numeral_3_eq_3)

lemma unsolicited_result:
  "unsolicited_advertisement ser hi target =
     (if is6 target \<and> \<not> is_unspecified target \<and> \<not> is_multicast target then
        if length (host_mac hi) = 6 then ser (unsolicited_layers hi target)
        else Inl (Errorf ''invalid host MAC address'' [] None)
      else Inl (Errorf ''invalid IPv6 advertisement target: %s'' [addr_string target] None))"
  by (auto simp: unsolicited_advertisement_def)

lemma gratuitous_valid:
  assumes "is6 target" "\<not> is_multicast target"
  shows "valid_solicitation (gratuitous_layers nonce hi target (as_slice target))"
  using group_bytes_slice [OF assms] assms
  by (simp add: frame_defs Let_def cons_zeros)

lemma specified_slice:
  "is6 a \<Longrightarrow> \<not> is_unspecified (without_zone a) \<Longrightarrow> as_slice a \<noteq> replicate 16 0"
  by (auto simp: is6_iff is_unspecified_def dest: word_bytes_zero)

lemma solicit_valid:
  assumes "is6 source" "\<not> is_multicast source" "\<not> is_unspecified (without_zone source)"
    and "is6 (gateway_ip hi)" "\<not> is_multicast (gateway_ip hi)"
  shows "valid_solicitation (solicit_layers hi source (as_slice (gateway_ip hi)))"
  using specified_slice [OF assms(1,3)] group_bytes_slice [OF assms(1,2)]
    group_bytes_slice [OF assms(4,5)] assms
  by (simp add: frame_defs Let_def cons_zeros)

lemma respond_valid:
  assumes "length (host_mac hi) = 6"
    and "is6 (target_ip ns)" "\<not> is_multicast (target_ip ns)"
    and "is6 (router_ip ns)" "\<not> is_multicast (router_ip ns)"
    and "\<not> is_unspecified (without_zone (router_ip ns))"
  shows "valid_advertisement (respond_layers ns hi)"
  using group_bytes_slice [OF assms(2,3)] group_bytes_slice [OF assms(4,5)] specified_slice [OF assms(4,6)] assms
  by (auto simp: frame_defs Let_def)

text \<open>
  The source of a duplicate address detection probe is the unspecified address. The answer goes
  back to it, so the frame is not a valid advertisement.
\<close>

lemma probe_answer_invalid:
  assumes "is6 (router_ip ns)" "is_unspecified (without_zone (router_ip ns))"
  shows "\<not> valid_advertisement (respond_layers ns hi)"
proof -
  obtain z where "router_ip ns = IP6 0 z"
    using assms by (cases "router_ip ns") (auto simp: is_unspecified_def)
  moreover have "as_slice (IP6 0 []) = replicate 16 0" by code_simp
  then have "as_slice (IP6 0 z) = replicate 16 0" by simp
  ultimately show ?thesis by (simp add: frame_defs Let_def)
qed

text \<open>The queue of the capture stays within its buffer and holds only decoded solicitations.\<close>

lemma capture_step_bound:
  "length (cap_queue c) \<le> 64 \<Longrightarrow> length (cap_queue (capture_step decode r c)) \<le> 64"
  by (auto simp: capture_step_def chan_simps split: read_result.splits sum.splits option.splits)

lemma slice_addr_unmapped: "\<not> is4in6 (slice_addr bs)" "addr_zone (slice_addr bs) = []"
proof -
  have z: "addr_zone a = []" if "addr_from_slice bs = Some a" for a
    using that by (auto simp: addr_from_slice_def split: if_splits)
  have u: "\<not> is4in6 (unmap a)" for a by (cases a) auto
  show "\<not> is4in6 (slice_addr bs)" by (simp add: slice_addr_def u split: option.split)
  show "addr_zone (slice_addr bs) = []"
  proof (cases "addr_from_slice bs")
    case (Some a)
    with z [OF Some] show ?thesis by (cases a) (auto simp: slice_addr_def)
  qed (simp add: slice_addr_def)
qed

section \<open>Properties\<close>

text \<open>C25: the packet filter. Under every machine that runs the four kinds of instruction the filter
  uses, it accepts a frame, with 262144 bytes, if and only if the frame is IPv6, carries ICMPv6
  directly after the IPv6 header, and its first ICMPv6 byte is that of a neighbor solicitation; in
  particular a frame that is too short is refused. The branch for the fragment header never
  accepts.\<close>

theorem filter_accepts_solicitations:
  assumes "bpf_machine exec"
  shows "exec bpf_filter 0 a pkt =
    (if 54 < length pkt \<and> pkt ! 12 = 0x86 \<and> pkt ! 13 = 0xdd \<and> pkt ! 20 = 58 \<and> pkt ! 54 = 135
     then 0x40000 else 0)"
  using bpf_machine.bpf_filter_exec [OF assms] by (simp add: solicitation_frame_def conj_ac)

theorem filter_accepts_solicitations_witness:
  "bpf_exec bpf_filter 0 0 ((replicate 55 0)[12 := 0x86, 13 := 0xdd, 20 := 58, 54 := 135]) = 0x40000"
  using filter_accepts_solicitations [OF bpf.bpf_machine_axioms] by simp

text \<open>C23: an unsolicited advertisement. It is built if and only if the address is a specified unicast
  IPv6 address and the host's MAC has six bytes, and then the layers form a valid neighbor
  advertisement: hop limit 255, to all nodes with the matching multicast MAC, not solicited, with
  the target's bytes and the host's MAC as its link-layer address.\<close>

theorem unsolicited_advertisement_valid:
  "case unsolicited_advertisement (\<lambda>ls. Inr (f ls)) hi target of
     Inl e \<Rightarrow> \<not> (is6 target \<and> \<not> is_unspecified target \<and> \<not> is_multicast target \<and> length (host_mac hi) = 6)
   | Inr bs \<Rightarrow> is6 target \<and> \<not> is_unspecified target \<and> \<not> is_multicast target \<and>
       bs = f (unsolicited_layers hi target) \<and> valid_advertisement (unsolicited_layers hi target)"
  by (auto simp: unsolicited_result unsolicited_valid)

text \<open>C22: the answer to a solicitation for a unicast IPv6 address. The layers form a valid neighbor
  advertisement, sent to the address and the MAC the solicitation came from, for the address it
  asked for, with the host's MAC; it is marked solicited and from a router, and overriding if and
  only if the solicitation was multicast. The one exception is the source: when the solicitation is a probe
  for duplicate addresses, its source is the unspecified address, and the answer, sent there and
  marked solicited, is not a valid advertisement.\<close>

theorem response_valid:
  assumes "length (host_mac hi) = 6"
    and "is6 (target_ip ns)" "\<not> is_multicast (target_ip ns)"
    and "is6 (router_ip ns)" "\<not> is_multicast (router_ip ns)"
  shows "(valid_advertisement (respond_layers ns hi) \<longleftrightarrow> \<not> is_unspecified (without_zone (router_ip ns))) \<and>
    (\<exists>e p c. respond_layers ns hi =
       [Ethernet e, IPv6 p, c, NeighborAdvertisement (advert_flags ns) (as_slice (target_ip ns))
          [\<lparr>opt_type = opt_target_address, opt_data = host_mac hi\<rparr>]] \<and>
       eth_src e = host_mac hi \<and> eth_dst e = router_mac ns \<and> ip6_src p = as_slice (target_ip ns) \<and>
       ip6_dst p = as_slice (router_ip ns)) \<and>
    advert_flags ns AND flag_solicited \<noteq> 0 \<and> advert_flags ns AND flag_router \<noteq> 0 \<and>
    (advert_flags ns AND flag_override \<noteq> 0 \<longleftrightarrow> is_multicast (dest_ip ns))"
proof -
  have "advert_flags ns AND flag_solicited \<noteq> 0" "advert_flags ns AND flag_router \<noteq> 0"
    "advert_flags ns AND flag_override \<noteq> 0 \<longleftrightarrow> is_multicast (dest_ip ns)"
    by (simp_all add: advert_flags_def flag_solicited_def flag_router_def flag_override_def)
  moreover have "valid_advertisement (respond_layers ns hi) \<longleftrightarrow> \<not> is_unspecified (without_zone (router_ip ns))"
    using respond_valid [OF assms] probe_answer_invalid [OF assms(4)] by blast
  ultimately show ?thesis
    by (simp add: respond_layers_def icmp6_packet_def Let_def)
qed

definition sample_solicitation :: neigh_solicitation where
  "sample_solicitation = \<lparr>router_mac = [0, 1, 2, 3, 4, 5],
     router_ip = IP6 0xfe800000000000000000000000000001 [],
     dest_ip = IP6 0xff0200000000000000000001ff000005 [],
     target_ip = IP6 0x20010db8000000000000000000000005 []\<rparr>"

definition sample_host :: host_info where
  "sample_host = \<lparr>host_mac = [2, 0, 0, 0, 0, 1], gateway_ip = IP6 0xfe800000000000000000000000000001 []\<rparr>"

theorem response_valid_witness:
  "valid_advertisement (respond_layers sample_solicitation sample_host) \<and>
   advert_flags sample_solicitation AND flag_override \<noteq> 0 \<and>
   \<not> valid_advertisement (respond_layers (sample_solicitation\<lparr>router_ip := IP6 0 []\<rparr>) sample_host)"
proof -
  let ?probe = "sample_solicitation\<lparr>router_ip := IP6 0 []\<rparr>"
  have "length (host_mac sample_host) = 6" "is6 (target_ip sample_solicitation)"
    "\<not> is_multicast (target_ip sample_solicitation)" "is6 (router_ip sample_solicitation)"
    "\<not> is_multicast (router_ip sample_solicitation)"
    "\<not> is_unspecified (without_zone (router_ip sample_solicitation))" "is_multicast (dest_ip sample_solicitation)"
    and "is6 (target_ip ?probe)" "\<not> is_multicast (target_ip ?probe)" "is6 (router_ip ?probe)"
    "\<not> is_multicast (router_ip ?probe)" "is_unspecified (without_zone (router_ip ?probe))"
    by code_simp+
  then show ?thesis
    using response_valid [of sample_host sample_solicitation] response_valid [of sample_host ?probe] by blast
qed

text \<open>C24: the two solicitations sent for a new runtime address. For a unicast target the duplicate
  detection probe, from the unspecified address with a nonce and without a link-layer option, and
  the solicitation of the gateway are valid, each to the solicited-node group of what it asks for
  with the matching multicast MAC; with a valid address the code never panics on the fixed-size
  copies of the address.\<close>

theorem solicitations_valid:
  assumes "is6 target" "\<not> is_multicast target" "\<not> is_unspecified (without_zone target)"
    and "is6 (gateway_ip hi)" "\<not> is_multicast (gateway_ip hi)"
  shows "gratuitous ser nonce hi target = ser (gratuitous_layers nonce hi target (as_slice target)) \<and>
    valid_solicitation (gratuitous_layers nonce hi target (as_slice target)) \<and>
    solicit ser hi target = ser (solicit_layers hi target (as_slice (gateway_ip hi))) \<and>
    valid_solicitation (solicit_layers hi target (as_slice (gateway_ip hi)))"
  using gratuitous_valid [OF assms(1,2)] solicit_valid [OF assms(1-5)]
  by (simp add: gratuitous_def solicit_def as16_six assms)

theorem solicitations_valid_witness:
  "valid_solicitation (solicit_layers sample_host (target_ip sample_solicitation)
     (as_slice (gateway_ip sample_host)))"
proof -
  have "is6 (target_ip sample_solicitation)" "\<not> is_multicast (target_ip sample_solicitation)"
    "\<not> is_unspecified (without_zone (target_ip sample_solicitation))"
    "is6 (gateway_ip sample_host)" "\<not> is_multicast (gateway_ip sample_host)"
    by code_simp+
  then show ?thesis using solicitations_valid by blast
qed

text \<open>The solicitation a read gives.\<close>

definition captured :: "(bytes \<Rightarrow> error + decoded) \<Rightarrow> read_result \<Rightarrow> neigh_solicitation option" where
  "captured decode r =
     (case r of
        ReadFailed \<Rightarrow> None
      | ReadPacket pkt \<Rightarrow> (case decode pkt of Inl e \<Rightarrow> None | Inr d \<Rightarrow> decoded_solicitation d))"

lemma capture_turn:
  "capture_step decode r c =
     (if cap_closed c then c
      else c\<lparr>cap_queue := (case captured decode r of None \<Rightarrow> cap_queue c
                          | Some ns \<Rightarrow> try_send 64 ns (cap_queue c)),
             cap_closed := (r = ReadFailed)\<rparr>)"
  by (cases c) (simp add: capture_step_def captured_def split: read_result.split sum.split option.split)

lemma captured_unmapped:
  "captured decode r = Some ns \<Longrightarrow> \<not> is4in6 (target_ip ns) \<and> addr_zone (target_ip ns) = []"
  by (auto simp: captured_def decoded_solicitation_def slice_addr_unmapped
      split: read_result.splits sum.splits if_splits)

text \<open>The loop as a whole: it runs up to the first read that fails.\<close>

lemma capture_loop:
  "fold (capture_step decode) rs capture_start =
     \<lparr>cap_queue = take 64 (List.map_filter (captured decode) (takeWhile (\<lambda>r. r \<noteq> ReadFailed) rs)),
      cap_closed = (ReadFailed \<in> set rs)\<rparr>"
proof (induction rs rule: rev_induct)
  case Nil
  then show ?case by (simp add: capture_start_def List.map_filter_simps)
next
  case (snoc r rs)
  have keep: "takeWhile (\<lambda>r. r \<noteq> ReadFailed) (rs @ [r]) = rs @ (if r = ReadFailed then [] else [r])"
    "takeWhile (\<lambda>r. r \<noteq> ReadFailed) rs = rs" if "ReadFailed \<notin> set rs"
    using that by (auto simp: takeWhile_eq_all_conv takeWhile_append)
  show ?case
  proof (cases "ReadFailed \<in> set rs")
    case True
    with snoc show ?thesis by (simp add: capture_turn takeWhile_append1)
  next
    case False
    with snoc show ?thesis
      by (simp add: capture_turn keep captured_def try_send_def List.map_filter_def take_Cons'
          split: option.split)
  qed
qed

text \<open>C26: the capture loop. Whatever the reads give, the loop ends and closes its channel at the first
  read that fails and takes nothing from then on. While nothing is received from the channel, it
  holds the first 64 of the solicitations read before that, in their order: packets that do not
  decode, or decode to something else, are skipped, and a burst beyond the buffer is dropped instead
  of blocking the capture. No target in it is IPv4-mapped or has a zone.\<close>

theorem capture_keeps_first_solicitations:
  "cap_queue (fold (capture_step decode) rs capture_start) =
     take 64 (List.map_filter (captured decode) (takeWhile (\<lambda>r. r \<noteq> ReadFailed) rs)) \<and>
   (cap_closed (fold (capture_step decode) rs capture_start) \<longleftrightarrow> ReadFailed \<in> set rs) \<and>
   list_all (\<lambda>ns. \<not> is4in6 (target_ip ns) \<and> addr_zone (target_ip ns) = [])
     (cap_queue (fold (capture_step decode) rs capture_start))"
proof -
  have "ns \<in> set (List.map_filter (captured decode) rs) \<Longrightarrow> \<exists>r. captured decode r = Some ns" for ns rs
    by (auto simp: List.map_filter_def)
  then show ?thesis
    by (auto simp: capture_loop list_all_iff dest!: in_set_takeD captured_unmapped)
qed

end
