(* ===== verification/Hostinfo.thy ===== *)
theory Hostinfo
  imports Ifname Ndp_Frames
begin

text \<open>
  \<open>hostinfo.go\<close>: the search for the default gateway and for its neighbor entry. The answers of
  the kernel are parameters, one per attempt. What the code does to the outside (waiting, probing
  the gateway, setting a neighbor entry, warning) is recorded as a list of actions.
\<close>

section \<open>The default gateway\<close>

text \<open>
  A route: the mask of its destination (\<open>None\<close> when \<open>Dst\<close> is nil), its gateway (\<open>None\<close> when nil)
  and its priority.
\<close>

record route =
  rt_mask :: "bytes option"
  rt_gw :: "bytes option"
  rt_priority :: int

text \<open>\<open>IPMask.Size\<close> of the standard library: 0 for a mask that is not ones followed by zeros.\<close>

fun leading_ones :: "nat \<Rightarrow> byte \<Rightarrow> nat \<times> byte" where
  "leading_ones 0 v = (0, v)"
| "leading_ones (Suc k) v =
     (if v AND 0x80 = 0 then (0, v)
      else case leading_ones k (push_bit 1 v) of (n, v') \<Rightarrow> (Suc n, v'))"

fun simple_mask_length :: "bytes \<Rightarrow> nat option" where
  "simple_mask_length [] = Some 0"
| "simple_mask_length (v # vs) =
     (if v = 0xff then map_option (\<lambda>n. 8 + n) (simple_mask_length vs)
      else case leading_ones 8 v of
        (n, v') \<Rightarrow> if v' \<noteq> 0 \<or> list_ex (\<lambda>b. b \<noteq> 0) vs then None else Some n)"

definition mask_ones :: "bytes \<Rightarrow> nat" where
  "mask_ones m = (case simple_mask_length m of None \<Rightarrow> 0 | Some n \<Rightarrow> n)"

definition max_int :: int where
  "max_int = 2 ^ 63 - 1"

fun default_gateway_loop :: "addr \<Rightarrow> int \<Rightarrow> route list \<Rightarrow> addr" where
  "default_gateway_loop gateway best [] = gateway"
| "default_gateway_loop gateway best (r # rs) =
     (let mask_len = (case rt_mask r of None \<Rightarrow> 0 | Some m \<Rightarrow> mask_ones m) in
        case rt_gw r of
          None \<Rightarrow> default_gateway_loop gateway best rs
        | Some gw \<Rightarrow>
            if mask_len \<noteq> 0 then default_gateway_loop gateway best rs
            else
              (case addr_from_slice gw of
                 None \<Rightarrow> default_gateway_loop gateway best rs
               | Some a \<Rightarrow>
                   let c = unmap a in
                   if \<not> is6 c then default_gateway_loop gateway best rs
                   else if is_valid gateway \<and> best \<le> rt_priority r
                   then default_gateway_loop gateway best rs
                   else default_gateway_loop c (rt_priority r) rs))"

definition default_gateway :: "route list \<Rightarrow> addr" where
  "default_gateway routes = default_gateway_loop NoAddr max_int routes"

section \<open>Gathering\<close>

definition max_gateway_route_retries :: nat where "max_gateway_route_retries = 8"
definition max_gateway_retries :: nat where "max_gateway_retries = 8"
definition gateway_route_retry_delay :: int where "gateway_route_retry_delay = 250"
definition gateway_probe_timeout :: int where "gateway_probe_timeout = 500"

record neigh =
  nb_ip :: bytes
  nb_hw :: bytes
  nb_state :: int

definition nud_reachable :: int where "nud_reachable = 2"
definition nud_noarp :: int where "nud_noarp = 64"
definition nud_permanent :: int where "nud_permanent = 128"

datatype host_action =
    Sleep int
  | Probe string int
  | NeighSet neigh
  | Warn string

text \<open>\<open>net.JoinHostPort\<close>\<close>

definition join_host_port :: "string \<Rightarrow> string \<Rightarrow> string" where
  "join_host_port host port =
     (if CHR '':'' \<in> set host then ''['' @ host @ '']:'' @ port else host @ '':'' @ port)"

definition probe_gateway_neighbor :: "iface option \<Rightarrow> addr \<Rightarrow> host_action list" where
  "probe_gateway_neighbor netif gateway =
     (if \<not> is_valid gateway \<or> \<not> is6 gateway then []
      else
        let host = addr_string gateway @
          (case netif of
             None \<Rightarrow> []
           | Some i \<Rightarrow>
               if is_link_local_unicast gateway \<and> if_name i \<noteq> [] then ''%'' @ if_name i else [])
        in [Probe (join_host_port host ''9'') gateway_probe_timeout])"

text \<open>
  The attempts to find the gateway. The first result is true when the routes could be listed
  every time.
\<close>

function find_gateway ::
  "(nat \<Rightarrow> error + route list) \<Rightarrow> nat \<Rightarrow> addr \<Rightarrow> host_action list \<Rightarrow> bool \<times> addr \<times> host_action list"
where
  "find_gateway routes attempt gateway acts =
     (if attempt < max_gateway_route_retries then
        case routes attempt of
          Inl e \<Rightarrow> (False, gateway, acts)
        | Inr rs \<Rightarrow>
            let gateway = default_gateway rs in
            if is_valid gateway then (True, gateway, acts)
            else find_gateway routes (Suc attempt) gateway
              (if Suc attempt < max_gateway_route_retries
               then acts @ [Sleep gateway_route_retry_delay] else acts)
      else (True, gateway, acts))"
  by pat_completeness auto
termination
  by (relation "measure (\<lambda>(_, attempt, _, _). max_gateway_route_retries - attempt)") auto

text \<open>The loop over the neighbor entries: the entry to set, \<open>needNoARP\<close> and \<open>done\<close>.\<close>

fun scan_neighs ::
  "addr \<Rightarrow> neigh option \<Rightarrow> bool \<Rightarrow> bool \<Rightarrow> neigh list \<Rightarrow> neigh option \<times> bool \<times> bool"
where
  "scan_neighs gateway gn need dn [] = (gn, need, dn)"
| "scan_neighs gateway gn need dn (n # ns) =
     (if slice_addr (nb_ip n) \<noteq> gateway \<or> length (nb_hw n) \<noteq> 6
      then scan_neighs gateway gn need dn ns
      else if nb_state n = nud_reachable \<or> nb_state n = nud_noarp
      then scan_neighs gateway (Some n) True True ns
      else if nb_state n = nud_permanent then scan_neighs gateway gn need True ns
      else scan_neighs gateway gn need dn ns)"

function find_neigh ::
  "(nat \<Rightarrow> error + neigh list) \<Rightarrow> iface \<Rightarrow> addr \<Rightarrow> nat \<Rightarrow> neigh option \<Rightarrow> bool \<Rightarrow>
   host_action list \<Rightarrow> bool \<times> neigh option \<times> bool \<times> host_action list"
where
  "find_neigh neighs netif gateway attempt gn need acts =
     (if attempt < max_gateway_retries then
        case neighs attempt of
          Inl e \<Rightarrow> (False, gn, need, acts)
        | Inr ns \<Rightarrow>
            (case scan_neighs gateway gn need False ns of
               (gn, need, dn) \<Rightarrow>
                 if dn then (True, gn, need, acts)
                 else find_neigh neighs netif gateway (Suc attempt) gn need
                   (if Suc attempt < max_gateway_retries
                    then acts @ probe_gateway_neighbor (Some netif) gateway @
                      [Sleep gateway_route_retry_delay]
                    else acts))
      else (True, gn, need, acts))"
  by pat_completeness auto
termination
  by (relation "measure (\<lambda>(_, _, _, attempt, _, _, _). max_gateway_retries - attempt)") auto

declare find_gateway.simps [simp del] find_neigh.simps [simp del]

text \<open>The kernel as \<open>gatherHostInfo\<close> sees it.\<close>

record netlink =
  nl_handle :: "error option"
  nl_link :: "error option"
  nl_routes :: "nat \<Rightarrow> error + route list"
  nl_neighs :: "nat \<Rightarrow> error + neigh list"

definition gather_host_info ::
  "netlink \<Rightarrow> iface \<Rightarrow> host_info \<times> error option \<times> host_action list"
where
  "gather_host_info nl netif =
     (let hi = \<lparr>host_mac = if_hw netif, gateway_ip = NoAddr\<rparr> in
      case nl_handle nl of Some e \<Rightarrow> (hi, None, []) | None \<Rightarrow>
      case nl_link nl of Some e \<Rightarrow> (hi, None, []) | None \<Rightarrow>
      case find_gateway (nl_routes nl) 0 NoAddr [] of (routes_ok, gateway, acts) \<Rightarrow>
        let hi = hi\<lparr>gateway_ip := gateway\<rparr> in
        if \<not> routes_ok then (hi, None, acts)
        else if \<not> is_valid gateway then (hi, None, acts @ [Warn ''no default gateway''])
        else
          (case find_neigh (nl_neighs nl) netif gateway 0 None False acts of
             (neighs_ok, gn, need, acts) \<Rightarrow>
               if \<not> neighs_ok then (hi, None, acts)
               else
                 (case gn of
                    Some n \<Rightarrow>
                      if need then (hi, None, acts @ [NeighSet (n\<lparr>nb_state := nud_noarp\<rparr>)])
                      else (hi, None, acts)
                  | None \<Rightarrow>
                      (hi, None, acts @
                        [Warn ''gateway neigh entry not found after max retries, proceeding without NUD_NOARP'']))))"

section \<open>Laws\<close>

text \<open>The gateway a route offers: only a default route has one, and only an IPv6 gateway counts.\<close>

definition route_gateway :: "route \<Rightarrow> addr option" where
  "route_gateway r =
     (if (case rt_mask r of None \<Rightarrow> 0 | Some m \<Rightarrow> mask_ones m) \<noteq> 0 then None
      else case rt_gw r of
        None \<Rightarrow> None
      | Some gw \<Rightarrow>
          (case addr_from_slice gw of
             None \<Rightarrow> None
           | Some a \<Rightarrow> if is6 (unmap a) then Some (unmap a) else None))"

lemma gateway_loop_Cons:
  "default_gateway_loop g best (r # rs) =
     (case route_gateway r of
        None \<Rightarrow> default_gateway_loop g best rs
      | Some c \<Rightarrow>
          if is_valid g \<and> best \<le> rt_priority r then default_gateway_loop g best rs
          else default_gateway_loop c (rt_priority r) rs)"
  by (auto simp: route_gateway_def Let_def split: option.split)

declare default_gateway_loop.simps(2) [simp del]

lemma route_gateway_valid: "route_gateway r = Some g \<Longrightarrow> is6 g"
  by (auto simp: route_gateway_def split: if_splits option.splits)

text \<open>\<open>best_route rs i\<close>: route \<open>i\<close> is the first of the lowest priority among those with a gateway.\<close>

definition best_route :: "route list \<Rightarrow> nat \<Rightarrow> bool" where
  "best_route rs i \<longleftrightarrow> i < length rs \<and> route_gateway (rs ! i) \<noteq> None \<and>
     (\<forall>j < length rs. route_gateway (rs ! j) \<noteq> None \<longrightarrow>
        rt_priority (rs ! i) \<le> rt_priority (rs ! j) \<and>
        (j < i \<longrightarrow> rt_priority (rs ! i) < rt_priority (rs ! j)))"

lemma best_route_Suc:
  assumes i: "best_route rs i"
    and r: "route_gateway r \<noteq> None \<Longrightarrow> rt_priority (rs ! i) < rt_priority r"
  shows "best_route (r # rs) (Suc i)"
proof -
  have "rt_priority (rs ! i) \<le> rt_priority ((r # rs) ! j) \<and>
      (j < Suc i \<longrightarrow> rt_priority (rs ! i) < rt_priority ((r # rs) ! j))"
    if "j < Suc (length rs)" "route_gateway ((r # rs) ! j) \<noteq> None" for j
    using that i r by (cases j) (force simp: best_route_def)+
  with i show ?thesis by (simp add: best_route_def)
qed

text \<open>The loop's result \<open>x\<close> on \<open>rs\<close>, started with the gateway \<open>g\<close> of priority \<open>best\<close>: \<open>g\<close>, when no route
  is better, or the gateway of a best route.\<close>

definition loop_result :: "addr \<Rightarrow> int \<Rightarrow> route list \<Rightarrow> addr \<Rightarrow> bool" where
  "loop_result g best rs x \<longleftrightarrow>
     x = g \<and> (\<forall>r \<in> set rs. route_gateway r \<noteq> None \<longrightarrow> best \<le> rt_priority r) \<or>
     (\<exists>i. best_route rs i \<and> rt_priority (rs ! i) < best \<and> route_gateway (rs ! i) = Some x)"

lemma loop_result_skip:
  assumes "loop_result g best rs x" "\<not> (route_gateway r \<noteq> None \<and> rt_priority r < best)"
  shows "loop_result g best (r # rs) x"
  using assms(1) unfolding loop_result_def
proof
  assume "\<exists>i. best_route rs i \<and> rt_priority (rs ! i) < best \<and> route_gateway (rs ! i) = Some x"
  then obtain i where i: "best_route rs i" "rt_priority (rs ! i) < best" "route_gateway (rs ! i) = Some x"
    by blast
  with assms(2) have "best_route (r # rs) (Suc i)" by (intro best_route_Suc) auto
  with i show "x = g \<and> (\<forall>r \<in> set (r # rs). route_gateway r \<noteq> None \<longrightarrow> best \<le> rt_priority r) \<or>
      (\<exists>i. best_route (r # rs) i \<and> rt_priority ((r # rs) ! i) < best \<and> route_gateway ((r # rs) ! i) = Some x)"
    by (intro disjI2 exI [of _ "Suc i"]) simp
qed (use assms(2) in auto)

lemma loop_result_take:
  assumes "loop_result c (rt_priority r) rs x" "route_gateway r = Some c" "rt_priority r < best"
  shows "loop_result g best (r # rs) x"
  using assms(1) unfolding loop_result_def
proof
  assume *: "x = c \<and> (\<forall>q \<in> set rs. route_gateway q \<noteq> None \<longrightarrow> rt_priority r \<le> rt_priority q)"
  then have "best_route (r # rs) 0"
    using assms(2) by (auto simp: best_route_def nth_Cons split: nat.splits)
  with * assms(2,3) show "x = g \<and> (\<forall>r \<in> set (r # rs). route_gateway r \<noteq> None \<longrightarrow> best \<le> rt_priority r) \<or>
      (\<exists>i. best_route (r # rs) i \<and> rt_priority ((r # rs) ! i) < best \<and> route_gateway ((r # rs) ! i) = Some x)"
    by (intro disjI2 exI [of _ 0]) simp
next
  assume "\<exists>i. best_route rs i \<and> rt_priority (rs ! i) < rt_priority r \<and> route_gateway (rs ! i) = Some x"
  then obtain i where i: "best_route rs i" "rt_priority (rs ! i) < rt_priority r" "route_gateway (rs ! i) = Some x"
    by blast
  then have "best_route (r # rs) (Suc i)" by (intro best_route_Suc) auto
  with i assms(3) show "x = g \<and> (\<forall>r \<in> set (r # rs). route_gateway r \<noteq> None \<longrightarrow> best \<le> rt_priority r) \<or>
      (\<exists>i. best_route (r # rs) i \<and> rt_priority ((r # rs) ! i) < best \<and> route_gateway ((r # rs) ! i) = Some x)"
    by (intro disjI2 exI [of _ "Suc i"]) simp
qed

lemma gateway_loop_spec: "is_valid g \<Longrightarrow> loop_result g best rs (default_gateway_loop g best rs)"
proof (induction rs arbitrary: g best)
  case Nil
  then show ?case by (simp add: loop_result_def)
next
  case (Cons r rs)
  show ?case
  proof (cases "route_gateway r")
    case None
    with loop_result_skip [OF Cons.IH [OF Cons.prems]] show ?thesis by (simp add: gateway_loop_Cons)
  next
    case (Some c)
    show ?thesis
    proof (cases "best \<le> rt_priority r")
      case True
      with Some loop_result_skip [OF Cons.IH [OF Cons.prems]] Cons.prems show ?thesis
        by (simp add: gateway_loop_Cons)
    next
      case False
      have "is_valid c" using Some by (simp add: route_gateway_valid)
      with False Some loop_result_take [OF Cons.IH Some] show ?thesis by (simp add: gateway_loop_Cons)
    qed
  qed
qed

text \<open>Without a gateway so far the first route that offers one is taken, whatever its priority.\<close>

lemma gateway_loop_none:
  "(default_gateway_loop NoAddr best rs = NoAddr \<and> (\<forall>r \<in> set rs. route_gateway r = None)) \<or>
   (\<exists>i. best_route rs i \<and> route_gateway (rs ! i) = Some (default_gateway_loop NoAddr best rs))"
proof (induction rs)
  case Nil
  then show ?case by simp
next
  case (Cons r rs)
  show ?case
  proof (cases "route_gateway r")
    case None
    then have eq: "default_gateway_loop NoAddr best (r # rs) = default_gateway_loop NoAddr best rs"
      by (simp add: gateway_loop_Cons)
    from Cons.IH show ?thesis
    proof
      assume "\<exists>i. best_route rs i \<and> route_gateway (rs ! i) = Some (default_gateway_loop NoAddr best rs)"
      then obtain i where "best_route rs i" "route_gateway (rs ! i) = Some (default_gateway_loop NoAddr best rs)"
        by blast
      with None eq show ?thesis
        by (intro disjI2 exI [of _ "Suc i"]) (auto intro!: best_route_Suc)
    qed (use None eq in simp)
  next
    case (Some c)
    then have "is_valid c" by (simp add: route_gateway_valid)
    note spec = gateway_loop_spec [OF this, of "rt_priority r" rs]
    have eq: "default_gateway_loop NoAddr best (r # rs) = default_gateway_loop c (rt_priority r) rs"
      using Some by (simp add: gateway_loop_Cons)
    have "loop_result NoAddr (rt_priority r + 1) (r # rs) (default_gateway_loop c (rt_priority r) rs)"
      by (rule loop_result_take [OF spec Some]) simp
    with Some eq show ?thesis by (auto simp: loop_result_def)
  qed
qed

lemma default_gateway_none:
  "default_gateway rs = NoAddr \<longleftrightarrow> (\<forall>r \<in> set rs. route_gateway r = None)"
  using gateway_loop_none [of max_int rs]
  by (auto simp: default_gateway_def best_route_def dest: route_gateway_valid)

lemma default_gateway_six: "default_gateway rs \<noteq> NoAddr \<Longrightarrow> is6 (default_gateway rs)"
  using gateway_loop_none [of max_int rs] by (auto simp: default_gateway_def dest: route_gateway_valid)

text \<open>The attempts: the gateway of the first listing that has one, after a wait per earlier attempt.\<close>

fun waiting :: "host_action \<Rightarrow> int" where
  "waiting (Sleep t) = t"
| "waiting (Probe _ t) = t"
| "waiting _ = 0"

definition waited :: "host_action list \<Rightarrow> int" where
  "waited acts = sum_list (map waiting acts)"

lemma waited_simps [simp]: "waited [] = 0" "waited (as @ bs) = waited as + waited bs"
  "waited (a # as) = waiting a + waited as"
  by (simp_all add: waited_def)

lemma find_gateway_bound:
  assumes "find_gateway routes k g acts = (b, g', acts')" "k < max_gateway_route_retries"
  shows "waited acts' \<le> waited acts + gateway_route_retry_delay * int (max_gateway_route_retries - 1 - k) \<and>
    (\<forall>n. NeighSet n \<notin> set acts \<longrightarrow> NeighSet n \<notin> set acts')"
  using assms
proof (induction routes k g acts rule: find_gateway.induct)
  case (1 routes k g acts)
  show ?case
  proof (cases "routes k")
    case (Inl e)
    with 1(2,3) show ?thesis by (simp add: find_gateway.simps gateway_route_retry_delay_def)
  next
    case (Inr rs)
    show ?thesis
    proof (cases "is_valid (default_gateway rs) \<or> \<not> Suc k < max_gateway_route_retries")
      case True
      with Inr 1(2,3) show ?thesis
        by (subst (asm) find_gateway.simps, cases "is_valid (default_gateway rs)")
          (auto simp: Let_def find_gateway.simps [of _ "Suc k"] gateway_route_retry_delay_def)
    next
      case False
      with Inr 1(2,3) have "find_gateway routes (Suc k) (default_gateway rs)
          (acts @ [Sleep gateway_route_retry_delay]) = (b, g', acts')"
        by (subst (asm) find_gateway.simps) (simp add: Let_def)
      with 1(1) [OF 1(3) Inr refl] False
      have "waited acts' \<le> waited (acts @ [Sleep gateway_route_retry_delay]) +
          gateway_route_retry_delay * int (max_gateway_route_retries - 1 - Suc k) \<and>
          (\<forall>n. NeighSet n \<notin> set (acts @ [Sleep gateway_route_retry_delay]) \<longrightarrow> NeighSet n \<notin> set acts')"
        by simp
      then show ?thesis using False by (auto simp: gateway_route_retry_delay_def of_nat_diff)
    qed
  qed
qed

lemma scan_neighs_entry:
  assumes "scan_neighs gateway gn need dn ns = (gn', need', dn')"
    and "case gn of None \<Rightarrow> \<not> need | Some n \<Rightarrow> need \<and> P n"
    and "\<And>n. n \<in> set ns \<Longrightarrow> slice_addr (nb_ip n) = gateway \<Longrightarrow> length (nb_hw n) = 6 \<Longrightarrow>
      nb_state n = nud_reachable \<or> nb_state n = nud_noarp \<Longrightarrow> P n"
  shows "case gn' of None \<Rightarrow> \<not> need' | Some n \<Rightarrow> need' \<and> P n"
  using assms
proof (induction gateway gn need dn ns rule: scan_neighs.induct)
  case (2 gateway gn need dn n ns)
  show ?case
  proof (cases "slice_addr (nb_ip n) \<noteq> gateway \<or> length (nb_hw n) \<noteq> 6")
    case True
    with 2(1) [OF True] 2(5-) show ?thesis by simp
  next
    case match: False
    show ?thesis
    proof (cases "nb_state n = nud_reachable \<or> nb_state n = nud_noarp")
      case True
      with match 2(2) [OF match True] 2(5-) show ?thesis by simp
    next
      case False
      with match 2(3) [OF match False] 2(4) [OF match False] 2(5-) show ?thesis
        by (cases "nb_state n = nud_permanent") simp_all
    qed
  qed
qed simp

text \<open>An entry the code may mark: the gateway's, with a MAC address, currently usable.\<close>

definition markable :: "(nat \<Rightarrow> error + neigh list) \<Rightarrow> addr \<Rightarrow> neigh \<Rightarrow> bool" where
  "markable neighs gateway n \<longleftrightarrow> slice_addr (nb_ip n) = gateway \<and> length (nb_hw n) = 6 \<and>
     (nb_state n = nud_reachable \<or> nb_state n = nud_noarp) \<and>
     (\<exists>k ns. neighs k = Inr ns \<and> n \<in> set ns)"

lemma waited_probe:
  "waited (probe_gateway_neighbor netif gateway) \<le> gateway_probe_timeout"
  "NeighSet n \<notin> set (probe_gateway_neighbor netif gateway)"
  by (auto simp: probe_gateway_neighbor_def Let_def gateway_probe_timeout_def)

lemma find_neigh_laws:
  assumes "find_neigh neighs netif gateway k gn need acts = (b, gn', need', acts')"
    and "k < max_gateway_retries"
    and "case gn of None \<Rightarrow> \<not> need | Some n \<Rightarrow> need \<and> markable neighs gateway n"
  shows "(case gn' of None \<Rightarrow> \<not> need' | Some n \<Rightarrow> need' \<and> markable neighs gateway n) \<and>
    waited acts' \<le> waited acts +
      (gateway_route_retry_delay + gateway_probe_timeout) * int (max_gateway_retries - 1 - k) \<and>
    (\<forall>n. NeighSet n \<notin> set acts \<longrightarrow> NeighSet n \<notin> set acts')"
  using assms
proof (induction neighs netif gateway k gn need acts rule: find_neigh.induct)
  case (1 neighs netif gateway k gn need acts)
  note pos = gateway_route_retry_delay_def gateway_probe_timeout_def
  show ?case
  proof (cases "neighs k")
    case (Inl e)
    with 1(2-4) show ?thesis by (subst (asm) find_neigh.simps) (auto simp: pos)
  next
    case (Inr ns)
    obtain gn1 need1 dn where sc: "scan_neighs gateway gn need False ns = (gn1, need1, dn)"
      by (cases "scan_neighs gateway gn need False ns") auto
    have ok1: "case gn1 of None \<Rightarrow> \<not> need1 | Some n \<Rightarrow> need1 \<and> markable neighs gateway n"
      by (rule scan_neighs_entry [OF sc 1(4)]) (use Inr in \<open>auto simp: markable_def\<close>)
    show ?thesis
    proof (cases "dn \<or> \<not> Suc k < max_gateway_retries")
      case True
      with Inr sc 1(2,3) have "gn' = gn1 \<and> need' = need1 \<and> acts' = acts"
        by (subst (asm) find_neigh.simps, cases dn) (auto simp: find_neigh.simps [of _ _ _ "Suc k"])
      with ok1 show ?thesis by (auto simp: pos)
    next
      case False
      let ?acts = "acts @ probe_gateway_neighbor (Some netif) gateway @ [Sleep gateway_route_retry_delay]"
      from False Inr sc 1(2,3)
      have rest: "find_neigh neighs netif gateway (Suc k) gn1 need1 ?acts = (b, gn', need', acts')"
        by (subst (asm) find_neigh.simps) simp
      have "(case gn' of None \<Rightarrow> \<not> need' | Some n \<Rightarrow> need' \<and> markable neighs gateway n) \<and>
          waited acts' \<le> waited ?acts +
            (gateway_route_retry_delay + gateway_probe_timeout) * int (max_gateway_retries - 1 - Suc k) \<and>
          (\<forall>n. NeighSet n \<notin> set ?acts \<longrightarrow> NeighSet n \<notin> set acts')"
        using 1(1) [OF 1(3) Inr sc [symmetric] refl] False rest ok1 by simp
      moreover have "int (max_gateway_retries - 1 - k) = int (max_gateway_retries - 1 - Suc k) + 1"
        using False by (simp add: of_nat_diff)
      ultimately show ?thesis
        using waited_probe(1) [of "Some netif" gateway] waited_probe(2) [of _ "Some netif" gateway] by (auto simp: pos algebra_simps)
    qed
  qed
qed

text \<open>What a call of \<open>gatherHostInfo\<close> does, whatever the kernel answers.\<close>

lemma find_gateway_valid:
  assumes "find_gateway routes k g acts = (b, g', acts')" "g = NoAddr \<or> is6 g"
  shows "g' = NoAddr \<or> is6 g'"
  using assms
proof (induction routes k g acts rule: find_gateway.induct)
  case (1 routes k g acts)
  show ?case
  proof (cases "k < max_gateway_route_retries \<and> (\<exists>rs. routes k = Inr rs)")
    case False
    with 1(2,3) show ?thesis
      by (subst (asm) find_gateway.simps) (auto split: sum.splits if_splits)
  next
    case True
    then obtain rs where k: "k < max_gateway_route_retries" and rs: "routes k = Inr rs" by auto
    show ?thesis
    proof (cases "is_valid (default_gateway rs)")
      case valid: True
      with 1(2) k rs show ?thesis
        using default_gateway_six [of rs] by (subst (asm) find_gateway.simps) auto
    next
      case False
      with 1(2) k rs have "find_gateway routes (Suc k) (default_gateway rs)
          (if Suc k < max_gateway_route_retries then acts @ [Sleep gateway_route_retry_delay] else acts) =
        (b, g', acts')"
        by (subst (asm) find_gateway.simps) (simp add: Let_def)
      from 1(1) [OF k rs refl False this] show ?thesis
        using default_gateway_six [of rs] by blast
    qed
  qed
qed

definition neigh_sets :: "host_action list \<Rightarrow> neigh list" where
  "neigh_sets acts = concat (map (\<lambda>a. case a of NeighSet n \<Rightarrow> [n] | _ \<Rightarrow> []) acts)"

lemma neigh_sets_simps [simp]: "neigh_sets [] = []" "neigh_sets (as @ bs) = neigh_sets as @ neigh_sets bs"
  "neigh_sets [NeighSet n] = [n]" "neigh_sets [Warn w] = []"
  by (simp_all add: neigh_sets_def)

lemma neigh_sets_none: "(\<forall>n. NeighSet n \<notin> set acts) \<Longrightarrow> neigh_sets acts = []"
  by (auto simp: neigh_sets_def split: host_action.splits)

lemma gather_laws:
  assumes "gather_host_info nl netif = (hi, r, acts)"
  shows "r = None \<and> host_mac hi = if_hw netif \<and> (gateway_ip hi = NoAddr \<or> is6 (gateway_ip hi)) \<and>
    waited acts \<le> 7 * 250 + 7 * (250 + 500) \<and>
    (neigh_sets acts = [] \<or>
     (\<exists>n. neigh_sets acts = [n\<lparr>nb_state := nud_noarp\<rparr>] \<and>
        markable (nl_neighs nl) (gateway_ip hi) n))"
proof (cases "nl_handle nl \<noteq> None \<or> nl_link nl \<noteq> None")
  case True
  then have "hi = \<lparr>host_mac = if_hw netif, gateway_ip = NoAddr\<rparr> \<and> r = None \<and> acts = []"
    using assms by (cases "nl_handle nl"; cases "nl_link nl") (auto simp: gather_host_info_def Let_def)
  then show ?thesis by simp
next
  case False
  obtain b g acts1 where fg: "find_gateway (nl_routes nl) 0 NoAddr [] = (b, g, acts1)"
    by (metis prod_cases3)
  have g: "g = NoAddr \<or> is6 g" using find_gateway_valid [OF fg] by simp
  have w1: "waited acts1 \<le> 7 * 250" "\<forall>n. NeighSet n \<notin> set acts1"
    using find_gateway_bound [OF fg]
    by (auto simp: max_gateway_route_retries_def gateway_route_retry_delay_def)
  note n1 = neigh_sets_none [OF w1(2)]
  show ?thesis
  proof (cases "b \<and> is_valid g")
    case stop: False
    with False assms fg g w1 n1 show ?thesis by (auto simp: gather_host_info_def Let_def split: if_splits)
  next
    case go: True
    obtain c gn need acts2 where fn: "find_neigh (nl_neighs nl) netif g 0 None False acts1 = (c, gn, need, acts2)"
      by (metis prod_cases4)
    have "(case gn of None \<Rightarrow> \<not> need | Some n \<Rightarrow> need \<and> markable (nl_neighs nl) g n) \<and>
        waited acts2 \<le> waited acts1 + 7 * 750 \<and> (\<forall>n. NeighSet n \<notin> set acts2)"
      using find_neigh_laws [OF fn] w1(2)
      by (simp add: max_gateway_retries_def gateway_route_retry_delay_def gateway_probe_timeout_def)
    then have w2: "waited acts2 \<le> 7 * 250 + 7 * 750" and n2: "neigh_sets acts2 = []"
      and gn: "case gn of None \<Rightarrow> \<not> need | Some n \<Rightarrow> need \<and> markable (nl_neighs nl) g n"
      using w1(1) by (auto intro: neigh_sets_none)
    have "(hi, r, acts) = (\<lparr>host_mac = if_hw netif, gateway_ip = g\<rparr>, None,
        if \<not> c then acts2
        else case gn of
          None \<Rightarrow> acts2 @ [Warn ''gateway neigh entry not found after max retries, proceeding without NUD_NOARP'']
        | Some n \<Rightarrow> if need then acts2 @ [NeighSet (n\<lparr>nb_state := nud_noarp\<rparr>)] else acts2)"
      using False go fg fn assms by (auto simp: gather_host_info_def Let_def split: option.splits)
    with w2 n2 gn g show ?thesis by (auto split: option.splits)
  qed
qed

section \<open>Properties\<close>

text \<open>C27: the default gateway is that of the best default route: a route without destination bits and
  with an IPv6 gateway whose priority is lowest, the first of them when several have it; there is
  none if and only if no listed route is such a route.\<close>

theorem default_gateway_is_best:
  "if \<forall>r \<in> set rs. route_gateway r = None then default_gateway rs = NoAddr
   else \<exists>i < length rs. route_gateway (rs ! i) = Some (default_gateway rs) \<and>
     is6 (default_gateway rs) \<and>
     (\<forall>j < length rs. route_gateway (rs ! j) \<noteq> None \<longrightarrow>
        rt_priority (rs ! i) \<le> rt_priority (rs ! j) \<and>
        (j < i \<longrightarrow> rt_priority (rs ! i) < rt_priority (rs ! j)))"
proof (cases "\<forall>r \<in> set rs. route_gateway r = None")
  case True
  then show ?thesis using default_gateway_none by simp
next
  case False
  then obtain i where "best_route rs i" "route_gateway (rs ! i) = Some (default_gateway rs)"
    using gateway_loop_none [of max_int rs] by (auto simp: default_gateway_def)
  then have "\<exists>i < length rs. route_gateway (rs ! i) = Some (default_gateway rs) \<and> is6 (default_gateway rs) \<and>
     (\<forall>j < length rs. route_gateway (rs ! j) \<noteq> None \<longrightarrow>
        rt_priority (rs ! i) \<le> rt_priority (rs ! j) \<and>
        (j < i \<longrightarrow> rt_priority (rs ! i) < rt_priority (rs ! j)))"
    by (auto simp: best_route_def dest: route_gateway_valid)
  with False show ?thesis by (simp only: if_False)
qed

definition sample_routes :: "route list" where
  "sample_routes =
     [\<lparr>rt_mask = None, rt_gw = Some (as_slice (IP6 1 [])), rt_priority = 1024\<rparr>,
      \<lparr>rt_mask = Some (replicate 16 0), rt_gw = Some (as_slice (IP6 2 [])), rt_priority = 100\<rparr>,
      \<lparr>rt_mask = Some (replicate 16 255), rt_gw = Some (as_slice (IP6 3 [])), rt_priority = 1\<rparr>]"

theorem default_gateway_is_best_witness:
  "default_gateway sample_routes = IP6 2 [] \<and>
   (\<exists>i < length sample_routes. route_gateway (sample_routes ! i) = Some (IP6 2 []))"
proof -
  have g: "default_gateway sample_routes = IP6 2 []" by code_simp
  have "\<not> (\<forall>r \<in> set sample_routes. route_gateway r = None)" by code_simp
  then show ?thesis using default_gateway_is_best [of sample_routes] unfolding g by (simp only: if_False) blast
qed

lemma find_gateway_listed:
  assumes "find_gateway routes k g acts = (b, g', acts')"
  shows "g' = g \<or> (\<exists>j rs. routes j = Inr rs \<and> g' = default_gateway rs)"
  using assms
proof (induction routes k g acts rule: find_gateway.induct)
  case (1 routes k g acts)
  show ?case
  proof (cases "\<exists>rs. k < max_gateway_route_retries \<and> routes k = Inr rs \<and> \<not> is_valid (default_gateway rs)")
    case True
    then obtain rs where k: "k < max_gateway_route_retries" and rs: "routes k = Inr rs"
      and g: "\<not> is_valid (default_gateway rs)" by blast
    have "find_gateway routes (Suc k) (default_gateway rs)
        (if Suc k < max_gateway_route_retries then acts @ [Sleep gateway_route_retry_delay] else acts) =
        (b, g', acts')"
      using "1.prems" k rs g by (simp add: find_gateway.simps [of routes k g acts] Let_def)
    from "1.IH" [OF k rs refl g this] rs show ?thesis by blast
  next
    case False
    with "1.prems" show ?thesis
      by (subst (asm) find_gateway.simps) (auto simp: Let_def split: if_splits sum.splits)
  qed
qed

text \<open>C28: gathering the host's information always returns, without an error, and within bounds: the
  waits for the route, the neighbor entry and the probes add up to at most 7 seconds. The MAC is
  the interface's; the gateway is invalid or the best IPv6 default gateway of a listing the kernel
  gave; and at most one neighbor entry is changed, a listed, reachable entry of that gateway, which
  becomes NOARP.\<close>

theorem gathering_is_bounded:
  "case gather_host_info nl netif of (hi, r, acts) \<Rightarrow>
     r = None \<and> waited acts \<le> 7000 \<and> host_mac hi = if_hw netif \<and>
     (gateway_ip hi = NoAddr \<or>
      is6 (gateway_ip hi) \<and> (\<exists>k rs. nl_routes nl k = Inr rs \<and> gateway_ip hi = default_gateway rs)) \<and>
     (neigh_sets acts = [] \<or>
      (\<exists>n k ns. neigh_sets acts = [n\<lparr>nb_state := nud_noarp\<rparr>] \<and> nl_neighs nl k = Inr ns \<and>
         n \<in> set ns \<and> slice_addr (nb_ip n) = gateway_ip hi \<and> length (nb_hw n) = 6 \<and>
         (nb_state n = nud_reachable \<or> nb_state n = nud_noarp)))"
proof -
  obtain hi r acts where g: "gather_host_info nl netif = (hi, r, acts)" by (metis prod_cases3)
  have "gateway_ip hi = NoAddr \<or> (\<exists>k rs. nl_routes nl k = Inr rs \<and> gateway_ip hi = default_gateway rs)"
  proof -
    have "gateway_ip hi = NoAddr \<or> (\<exists>b a. find_gateway (nl_routes nl) 0 NoAddr [] = (b, gateway_ip hi, a))"
      using g by (auto simp: gather_host_info_def Let_def split: option.splits prod.splits if_splits)
    then show ?thesis using find_gateway_listed by blast
  qed
  with gather_laws [OF g] show ?thesis by (auto simp: g markable_def)
qed

end
