(* ===== verification/Responder.thy ===== *)
theory Responder
  imports Hostinfo
begin

text \<open>
  \<open>responder.go\<close>: the choice of the interface the responder runs on. Every candidate that can be
  initialized holds an open packet handle until one of them is selected, so the model threads the
  set of open handles through the code. Opening a handle and installing the filter are answers of
  the operating system.
\<close>

record handle_world =
  hw_next :: nat
  hw_open :: "nat set"

text \<open>
  A runtime is used by pointer: \<open>rt_id\<close> is the identity of the structure, \<open>rt_handle\<close> is \<open>None\<close>
  for a nil handle.
\<close>

record runtime =
  rt_id :: nat
  rt_netif :: iface
  rt_hi :: host_info
  rt_handle :: "nat option"
  rt_reason :: string

record packet_env =
  pe_new_tpacket :: "string \<Rightarrow> error option"
  pe_set_bpf :: "string \<Rightarrow> bpf_instr list \<Rightarrow> error option"
  pe_netlink :: "iface \<Rightarrow> netlink"

definition open_handle :: "handle_world \<Rightarrow> nat \<times> handle_world" where
  "open_handle w = (hw_next w, w\<lparr>hw_next := Suc (hw_next w), hw_open := insert (hw_next w) (hw_open w)\<rparr>)"

definition close_handle :: "nat \<Rightarrow> handle_world \<Rightarrow> handle_world" where
  "close_handle h w = w\<lparr>hw_open := hw_open w - {h}\<rparr>"

definition try_responder_candidate ::
  "packet_env \<Rightarrow> candidate \<Rightarrow> handle_world \<Rightarrow> (error + runtime) \<times> handle_world"
where
  "try_responder_candidate env c w =
     (let ifi = cand_if c in
      case pe_new_tpacket env (if_name ifi) of
        Some e \<Rightarrow> (Inl e, w)
      | None \<Rightarrow>
          (case open_handle w of (h, w) \<Rightarrow>
             case pe_set_bpf env (if_name ifi) bpf_filter of
               Some e \<Rightarrow> (Inl e, close_handle h w)
             | None \<Rightarrow>
                 (case gather_host_info (pe_netlink env ifi) ifi of
                    (hi, Some e, _) \<Rightarrow> (Inl e, close_handle h w)
                  | (hi, None, _) \<Rightarrow>
                      (Inr \<lparr>rt_id = h, rt_netif = ifi, rt_hi = hi, rt_handle = Some h,
                            rt_reason = cand_reason c\<rparr>, w))))"

text \<open>\<open>ready[0]\<close> panics on an empty list.\<close>

definition choose_responder_runtime :: "runtime list \<Rightarrow> error + runtime" where
  "choose_responder_runtime ready =
     (case ready of
        [] \<Rightarrow> Inl (Panic ''index out of range [0] with length 0'')
      | selected # _ \<Rightarrow>
          (case find (\<lambda>rt. is_valid (gateway_ip (rt_hi rt))) ready of
             Some rt \<Rightarrow> Inr rt
           | None \<Rightarrow> Inr selected))"

definition finalize_responder_runtime ::
  "runtime \<Rightarrow> runtime list \<Rightarrow> handle_world \<Rightarrow> (error + runtime) \<times> handle_world"
where
  "finalize_responder_runtime selected ready w =
     (Inr selected,
      fold (\<lambda>rt w. if rt_id rt = rt_id selected then w
                   else case rt_handle rt of None \<Rightarrow> w | Some h \<Rightarrow> close_handle h w) ready w)"

fun prepare_responder_loop ::
  "(candidate \<Rightarrow> handle_world \<Rightarrow> (error + runtime) \<times> handle_world) \<Rightarrow>
   runtime list \<Rightarrow> error list \<Rightarrow> candidate list \<Rightarrow> handle_world \<Rightarrow>
   (error + runtime) \<times> handle_world"
where
  "prepare_responder_loop initialize ready failures [] w =
     (if ready = [] then
        (Inl (Errorf ''no candidate network interface could be initialized: %s'' []
           (Some (Joined failures))), w)
      else case choose_responder_runtime ready of
        Inl e \<Rightarrow> (Inl e, w)
      | Inr rt \<Rightarrow> finalize_responder_runtime rt ready w)"
| "prepare_responder_loop initialize ready failures (c # cs) w =
     (case initialize c w of
        (Inl e, w) \<Rightarrow>
          prepare_responder_loop initialize ready
            (failures @ [Errorf ''%s(%s): %v'' [if_name (cand_if c), cand_reason c] (Some e)]) cs w
      | (Inr rt, w) \<Rightarrow>
          let ready = ready @ [rt] in
          if str_contains (cand_reason c) ''requested'' then finalize_responder_runtime rt ready w
          else if is_valid (gateway_ip (rt_hi rt)) then finalize_responder_runtime rt ready w
          else prepare_responder_loop initialize ready failures cs w)"

definition prepare_responder_with ::
  "(candidate \<Rightarrow> handle_world \<Rightarrow> (error + runtime) \<times> handle_world) \<Rightarrow> candidate list \<Rightarrow>
   handle_world \<Rightarrow> (error + runtime) \<times> handle_world"
where
  "prepare_responder_with initialize candidates w =
     (if candidates = [] then (Inl (Errorf ''no candidate network interfaces'' [] None), w)
      else prepare_responder_loop initialize [] [] candidates w)"

definition prepare_responder ::
  "packet_env \<Rightarrow> candidate list \<Rightarrow> handle_world \<Rightarrow> (error + runtime) \<times> handle_world"
where
  "prepare_responder env = prepare_responder_with (try_responder_candidate env)"

section \<open>Laws\<close>

text \<open>The failures of the candidates are wrapped, and a runtime is chosen from a list that is not empty.\<close>

lemma prepare_loop_no_panic:
  "fst (prepare_responder_loop initialize ready failures cs w) = Inl e \<Longrightarrow> \<not> is_panic e"
proof (induction initialize ready failures cs w rule: prepare_responder_loop.induct)
  case (1 initialize ready failures w)
  then show ?case
    by (cases ready) (auto simp: choose_responder_runtime_def finalize_responder_runtime_def split: option.splits)
next
  case (2 initialize ready failures c cs w)
  then show ?case
    by (auto simp: finalize_responder_runtime_def Let_def split: prod.splits sum.splits if_splits)
qed

lemma prepare_no_panic: "prepare_responder env cs w = (Inl e, w') \<Longrightarrow> \<not> is_panic e"
  using prepare_loop_no_panic [of "try_responder_candidate env" "[]" "[]" cs w e]
  by (auto simp: prepare_responder_def prepare_responder_with_def split: if_splits)

text \<open>
  What trying a candidate comes to: whether its handle can be set up does not depend on the other
  candidates.
\<close>

definition candidate_ok :: "packet_env \<Rightarrow> candidate \<Rightarrow> bool" where
  "candidate_ok env c \<longleftrightarrow> pe_new_tpacket env (if_name (cand_if c)) = None \<and>
     pe_set_bpf env (if_name (cand_if c)) bpf_filter = None"

definition candidate_info :: "packet_env \<Rightarrow> candidate \<Rightarrow> host_info" where
  "candidate_info env c = fst (gather_host_info (pe_netlink env (cand_if c)) (cand_if c))"

definition candidate_runtime :: "packet_env \<Rightarrow> nat \<Rightarrow> candidate \<Rightarrow> runtime" where
  "candidate_runtime env h c =
     \<lparr>rt_id = h, rt_netif = cand_if c, rt_hi = candidate_info env c, rt_handle = Some h,
      rt_reason = cand_reason c\<rparr>"

text \<open>A candidate that ends the search.\<close>

definition decisive :: "packet_env \<Rightarrow> candidate \<Rightarrow> bool" where
  "decisive env c \<longleftrightarrow> candidate_ok env c \<and>
     (str_contains (cand_reason c) ''requested'' \<or> is_valid (gateway_ip (candidate_info env c)))"

definition world_ok :: "handle_world \<Rightarrow> bool" where
  "world_ok w \<longleftrightarrow> (\<forall>h \<in> hw_open w. h < hw_next w)"

lemma gather_never_fails: "fst (snd (gather_host_info nl netif)) = None"
  using gather_laws [of nl netif] by (metis prod.collapse)

lemma try_ok:
  "candidate_ok env c \<Longrightarrow>
   try_responder_candidate env c w = (Inr (candidate_runtime env (hw_next w) c), snd (open_handle w))"
  using gather_never_fails [of "pe_netlink env (cand_if c)" "cand_if c"]
  by (auto simp: try_responder_candidate_def candidate_ok_def candidate_runtime_def open_handle_def
      candidate_info_def Let_def split: prod.split option.split)

lemma try_fails:
  assumes "\<not> candidate_ok env c" "world_ok w"
  obtains e k where "try_responder_candidate env c w = (Inl e, w\<lparr>hw_next := k\<rparr>)" "hw_next w \<le> k"
proof -
  have "hw_open w - {hw_next w} = hw_open w" using assms(2) by (auto simp: world_ok_def)
  with assms(1) that show ?thesis
    by (cases "pe_new_tpacket env (if_name (cand_if c))";
        cases "pe_set_bpf env (if_name (cand_if c)) bpf_filter")
      (auto simp: try_responder_candidate_def candidate_ok_def open_handle_def close_handle_def Let_def
        intro: that [of _ "hw_next w"] that [of _ "Suc (hw_next w)"])
qed

lemma finalize_open:
  assumes "\<forall>rt \<in> set ready. rt_handle rt = Some (rt_id rt)"
  shows "hw_open (snd (finalize_responder_runtime selected ready w)) =
    hw_open w - (rt_id ` set ready - {rt_id selected})"
  using assms
proof (induction ready arbitrary: w)
  case (Cons rt ready)
  then show ?case by (auto simp: finalize_responder_runtime_def close_handle_def)
qed (simp add: finalize_responder_runtime_def)

lemma finalize_fst: "fst (finalize_responder_runtime selected ready w) = Inr selected"
  by (simp add: finalize_responder_runtime_def)

text \<open>The runtimes opened so far, none of them decisive, and the handles they hold.\<close>

definition pending :: "packet_env \<Rightarrow> handle_world \<Rightarrow> candidate list \<Rightarrow> runtime list \<Rightarrow> handle_world \<Rightarrow> bool" where
  "pending env w0 tried ready w \<longleftrightarrow>
     world_ok w \<and> hw_open w = hw_open w0 \<union> rt_id ` set ready \<and>
     (\<forall>rt \<in> set ready. rt_handle rt = Some (rt_id rt) \<and> rt_id rt \<notin> hw_open w0 \<and>
        \<not> is_valid (gateway_ip (rt_hi rt))) \<and>
     list_all2 (\<lambda>c rt. rt = candidate_runtime env (rt_id rt) c) (filter (candidate_ok env) tried) ready"

text \<open>The candidate the search selects.\<close>

definition selected_candidate :: "packet_env \<Rightarrow> candidate list \<Rightarrow> candidate option" where
  "selected_candidate env cs =
     (case find (decisive env) cs of
        Some c \<Rightarrow> Some c
      | None \<Rightarrow> find (candidate_ok env) cs)"

definition selects ::
  "packet_env \<Rightarrow> handle_world \<Rightarrow> candidate option \<Rightarrow> (error + runtime) \<times> handle_world \<Rightarrow> bool"
where
  "selects env w0 s r \<longleftrightarrow>
     (case s of
        None \<Rightarrow> \<not> is_ok (fst r) \<and> (\<forall>e. fst r = Inl e \<longrightarrow> \<not> is_panic e) \<and> hw_open (snd r) = hw_open w0
      | Some c \<Rightarrow> \<exists>h. fst r = Inr (candidate_runtime env h c) \<and> h \<notin> hw_open w0 \<and>
          hw_open (snd r) = insert h (hw_open w0))"

lemma pending_finalize:
  assumes p: "pending env w0 tried ready w" and rt: "rt \<in> set ready"
    and eq: "rt = candidate_runtime env (rt_id rt) c"
  shows "selects env w0 (Some c) (finalize_responder_runtime rt ready w)"
proof -
  have "hw_open (snd (finalize_responder_runtime rt ready w)) =
      hw_open w - (rt_id ` set ready - {rt_id rt})"
    using p by (intro finalize_open) (simp add: pending_def)
  also have "\<dots> = insert (rt_id rt) (hw_open w0)" using p rt by (auto simp: pending_def)
  finally show ?thesis
    using p rt eq by (auto simp: selects_def finalize_fst pending_def)
qed

lemma pending_finalize_new:
  assumes p: "pending env w0 tried ready w" and rt: "rt = candidate_runtime env (hw_next w) c"
  shows "selects env w0 (Some c) (finalize_responder_runtime rt (ready @ [rt]) (snd (open_handle w)))"
proof -
  have fresh: "hw_next w \<notin> hw_open w0" "hw_next w \<notin> rt_id ` set ready"
    using p by (auto simp: pending_def world_ok_def)
  have "hw_open (snd (finalize_responder_runtime rt (ready @ [rt]) (snd (open_handle w)))) =
      insert (hw_next w) (hw_open w) - (rt_id ` set (ready @ [rt]) - {rt_id rt})"
    using p by (subst finalize_open) (auto simp: pending_def rt candidate_runtime_def open_handle_def)
  also have "\<dots> = insert (hw_next w) (hw_open w0)"
    using p fresh by (auto simp: pending_def rt candidate_runtime_def)
  finally show ?thesis using fresh by (auto simp: selects_def finalize_fst rt)
qed

lemma pending_new:
  assumes "pending env w0 tried ready w" "candidate_ok env c" "\<not> decisive env c"
  shows "pending env w0 (tried @ [c]) (ready @ [candidate_runtime env (hw_next w) c]) (snd (open_handle w))"
  using assms
  by (auto simp: pending_def world_ok_def open_handle_def candidate_runtime_def decisive_def
      less_Suc_eq intro!: list_all2_appendI)

lemma world_ok_later: "world_ok w \<Longrightarrow> hw_next w \<le> k \<Longrightarrow> world_ok (w\<lparr>hw_next := k\<rparr>)"
  using order_less_le_trans by (auto simp: world_ok_def)

lemma pending_failed:
  "pending env w0 tried ready w \<Longrightarrow> \<not> candidate_ok env c \<Longrightarrow> hw_next w \<le> k \<Longrightarrow>
   pending env w0 (tried @ [c]) ready (w\<lparr>hw_next := k\<rparr>)"
  unfolding pending_def by (simp add: world_ok_later)

lemma prepare_loop_done:
  assumes "pending env w0 tried ready w" "find (decisive env) tried = None"
  shows "selects env w0 (selected_candidate env tried)
    (prepare_responder_loop (try_responder_candidate env) ready failures [] w)"
proof (cases ready)
  case Nil
  with assms show ?thesis
    by (simp add: selected_candidate_def find_filter_hd [of "candidate_ok env"] pending_def selects_def)
next
  case (Cons rt rts)
  with assms obtain c cs where f: "filter (candidate_ok env) tried = c # cs"
    and rt: "rt = candidate_runtime env (rt_id rt) c"
    by (auto simp: pending_def list_all2_Cons2)
  have "find (\<lambda>rt. is_valid (gateway_ip (rt_hi rt))) ready = None"
    using assms(1) by (auto simp: find_None_iff pending_def)
  then have "choose_responder_runtime ready = Inr rt"
    by (simp add: choose_responder_runtime_def Cons)
  moreover have "selects env w0 (Some c) (finalize_responder_runtime rt ready w)"
    by (rule pending_finalize [OF assms(1) _ rt]) (simp add: Cons)
  ultimately show ?thesis
    using assms(2) Cons
    by (simp add: selected_candidate_def find_filter_hd [of "candidate_ok env"] f)
qed

lemma prepare_loop_selects:
  assumes "pending env w0 tried ready w" "find (decisive env) tried = None"
  shows "selects env w0 (selected_candidate env (tried @ cs))
    (prepare_responder_loop (try_responder_candidate env) ready failures cs w)"
  using assms
proof (induction cs arbitrary: tried ready failures w)
  case Nil
  then show ?case unfolding append_Nil2 by (rule prepare_loop_done)
next
  case (Cons c cs)
  show ?case
  proof (cases "candidate_ok env c")
    case False
    then have nd: "\<not> decisive env c" by (simp add: decisive_def)
    have "world_ok w" using Cons.prems by (simp add: pending_def)
    with False obtain e k where t: "try_responder_candidate env c w = (Inl e, w\<lparr>hw_next := k\<rparr>)"
      and k: "hw_next w \<le> k" by (rule try_fails)
    have "find (decisive env) (tried @ [c]) = None"
      using Cons.prems(2) nd by (simp add: find_append_none)
    from Cons.IH [OF pending_failed [OF Cons.prems(1) False k] this] show ?thesis by (simp add: t)
  next
    case True
    let ?rt = "candidate_runtime env (hw_next w) c"
    note t = try_ok [OF True, of w]
    show ?thesis
    proof (cases "decisive env c")
      case dec: True
      then have "selected_candidate env (tried @ c # cs) = Some c"
        using Cons.prems(2) by (simp add: selected_candidate_def find_append_none)
      moreover have "prepare_responder_loop (try_responder_candidate env) ready failures (c # cs) w =
          finalize_responder_runtime ?rt (ready @ [?rt]) (snd (open_handle w))"
        using dec by (auto simp: t Let_def decisive_def candidate_runtime_def)
      ultimately show ?thesis
        using pending_finalize_new [OF Cons.prems(1) refl, of c] by simp
    next
      case nd: False
      have "find (decisive env) (tried @ [c]) = None"
        using Cons.prems(2) nd by (simp add: find_append_none)
      from Cons.IH [OF pending_new [OF Cons.prems(1) True nd] this]
      have "selects env w0 (selected_candidate env (tried @ c # cs))
          (prepare_responder_loop (try_responder_candidate env) (ready @ [?rt]) failures cs (snd (open_handle w)))"
        by simp
      moreover have "\<not> str_contains (cand_reason c) ''requested''" "\<not> is_valid (gateway_ip (rt_hi ?rt))"
        using nd True by (auto simp: decisive_def candidate_runtime_def)
      ultimately show ?thesis by (simp add: t Let_def)
    qed
  qed
qed

lemma prepare_responder_selects:
  assumes "world_ok w"
  shows "selects env w (selected_candidate env cs) (prepare_responder env cs w)"
proof (cases "cs = []")
  case True
  then show ?thesis
    by (simp add: prepare_responder_def prepare_responder_with_def selects_def selected_candidate_def)
next
  case False
  have "pending env w [] [] w" using assms by (simp add: pending_def)
  from prepare_loop_selects [OF this, of cs "[]"] False show ?thesis
    by (simp add: prepare_responder_def prepare_responder_with_def)
qed

section \<open>Properties\<close>

text \<open>C12: the choice of the interface. The responder runs on the first candidate that can be
  initialized and was requested or has an IPv6 default gateway, else on the first one that can be
  initialized; exactly one packet handle is then open, a new one, and it is the runtime's. When no
  candidate can be initialized the call fails, without a panic, and every handle it opened is
  closed.\<close>

theorem responder_interface_choice:
  assumes "world_ok w"
  shows "case (case find (decisive env) cs of Some c \<Rightarrow> Some c | None \<Rightarrow> find (candidate_ok env) cs) of
      Some c \<Rightarrow> \<exists>h. h \<notin> hw_open w \<and>
        fst (prepare_responder env cs w) = Inr (candidate_runtime env h c) \<and>
        hw_open (snd (prepare_responder env cs w)) = insert h (hw_open w)
    | None \<Rightarrow> (\<forall>c \<in> set cs. \<not> candidate_ok env c) \<and>
        (\<exists>e. fst (prepare_responder env cs w) = Inl e \<and> \<not> is_panic e) \<and>
        hw_open (snd (prepare_responder env cs w)) = hw_open w"
proof -
  have none: "find (candidate_ok env) cs = None \<Longrightarrow> \<forall>c \<in> set cs. \<not> candidate_ok env c"
    by (simp add: find_None_iff)
  show ?thesis
    using prepare_responder_selects [OF assms, of env cs] none
    by (cases "find (decisive env) cs"; cases "fst (prepare_responder env cs w)")
      (auto simp: selects_def selected_candidate_def is_ok_def split: option.splits)
qed

definition sample_netlink :: "iface \<Rightarrow> netlink" where
  "sample_netlink ifi = \<lparr>nl_handle = None, nl_link = None,
     nl_routes = (\<lambda>_. Inr (if if_name ifi = ''br0'' then [] else sample_routes)),
     nl_neighs = (\<lambda>_. Inl (Environment ''none''))\<rparr>"

definition sample_packet :: packet_env where
  "sample_packet = \<lparr>pe_new_tpacket = (\<lambda>n. if n = ''lo'' then Some (Environment ''refused'') else None),
     pe_set_bpf = (\<lambda>_ _. None), pe_netlink = sample_netlink\<rparr>"

definition sample_candidates :: "candidate list" where
  "sample_candidates = map (\<lambda>i. \<lparr>cand_if = i, cand_reason = ''interface-scan''\<rparr>)
     [sample_interfaces ! 0, sample_interfaces ! 2, sample_interfaces ! 1]"

theorem responder_interface_choice_witness:
  "\<exists>h. fst (prepare_responder sample_packet sample_candidates \<lparr>hw_next = 5, hw_open = {3}\<rparr>) =
     Inr (candidate_runtime sample_packet h (sample_candidates ! 2)) \<and> h \<noteq> 3"
proof -
  have ok: "world_ok \<lparr>hw_next = 5, hw_open = {3}\<rparr>" by (simp add: world_ok_def)
  have "find (decisive sample_packet) sample_candidates = Some (sample_candidates ! 2)" by code_simp
  then show ?thesis
    using responder_interface_choice [OF ok, where env = sample_packet and cs = sample_candidates] by auto
qed

end
