(* ===== verification/Netip_Roundtrip.thy ===== *)
theory Netip_Roundtrip
  imports Netip_Text
begin

text \<open>
  Printing an address and parsing the text gives the address back: the text of \<open>Addr.String\<close> is
  what the program passes to the BSD tools and reads from their tables.
\<close>

section \<open>Digits\<close>

definition nibbles :: "16 word list" where
  "nibbles = map word_of_int [0..15]"

definition nibble_ok :: "16 word \<Rightarrow> bool" where
  "nibble_ok d \<longleftrightarrow> hex_val (digit_char d) = Some (ucast d) \<and>
     digit_char d \<in> set ''0123456789abcdef''"

lemma nibbles_ok: "list_all nibble_ok nibbles"
  by code_simp

lemma nibble: "d \<le> 15 \<Longrightarrow> nibble_ok d"
proof -
  assume "d \<le> 15"
  then have "uint d \<in> set [0..15]" by (simp add: word_le_def)
  then have "d \<in> set nibbles" by (auto simp: nibbles_def intro!: image_eqI [where x = "uint d"])
  with nibbles_ok show ?thesis by (simp add: list_all_iff)
qed

definition digits :: "byte list" where
  "digits = map word_of_int [0..9]"

definition digit_ok :: "byte \<Rightarrow> bool" where
  "digit_ok d \<longleftrightarrow> is_digit (digit_char d) \<and> digit_val (digit_char d) = uint d \<and>
     hex_val (digit_char d) = Some (ucast d) \<and> 0 \<le> uint d \<and> uint d \<le> 9"

lemma digits_ok: "list_all digit_ok digits"
  by code_simp

lemma digit: "uint d \<le> 9 \<Longrightarrow> digit_ok d"
proof -
  assume "uint d \<le> 9"
  then have "uint d \<in> set [0..9]" by simp
  then have "d \<in> set digits" by (auto simp: digits_def intro!: image_eqI [where x = "uint d"])
  with digits_ok show ?thesis by (simp add: list_all_iff)
qed

lemma dec_digits:
  "uint ((b :: byte) div 10) = uint b div 10" "uint (b div 100) = uint b div 100"
  "uint (b mod 10) = uint b mod 10"
  by (simp_all add: uint_div uint_mod)

lemma byte_range: "0 \<le> uint (b :: byte)" "uint b \<le> 255"
  using uint_range_size [of b] by (simp_all add: word_size)

lemma dec_string_cases:
  obtains (one) d where "dec_string b = [digit_char d]" "digit_ok d" "uint b = uint d"
  | (two) d e where "dec_string b = [digit_char d, digit_char e]" "digit_ok d" "digit_ok e"
      "0 < uint d" "uint b = uint d * 10 + uint e"
  | (three) d e f where "dec_string b = [digit_char d, digit_char e, digit_char f]"
      "digit_ok d" "digit_ok e" "digit_ok f" "0 < uint d" "uint b = (uint d * 10 + uint e) * 10 + uint f"
proof -
  note r = byte_range [of b]
  have ge: "b \<ge> 100 \<longleftrightarrow> uint b \<ge> 100" "b \<ge> 10 \<longleftrightarrow> uint b \<ge> 10" by (simp_all add: word_le_def)
  have ok: "digit_ok (b mod 10)" "digit_ok (b div 10 mod 10)" "digit_ok (b div 100)"
    using r by (auto intro!: digit simp: dec_digits)
  consider "uint b < 10" | "10 \<le> uint b" "uint b < 100" | "100 \<le> uint b" by linarith
  then show thesis
  proof cases
    case 1
    with ge ok r show ?thesis by (intro one [of "b mod 10"]) (auto simp: dec_string_def dec_digits)
  next
    case 2
    with ge ok r show ?thesis
      by (intro two [of "b div 10 mod 10" "b mod 10"]) (auto simp: dec_string_def dec_digits)
  next
    case 3
    have "uint b div 100 = uint b div 10 div 10" by (simp add: zdiv_zmult2_eq [symmetric])
    then have "uint b = (uint b div 100 * 10 + uint b div 10 mod 10) * 10 + uint b mod 10" by simp
    with 3 ge ok r show ?thesis
      by (intro three [of "b div 100" "b div 10 mod 10" "b mod 10"])
        (auto simp: dec_string_def dec_digits)
  qed
qed

lemma v4_loop_byte: "\<exists>n. n \<noteq> 0 \<and> v4_loop fs 0 0 (dec_string b @ s) = v4_loop fs (uint b) n s"
proof (cases b rule: dec_string_cases)
  case (one d)
  then show ?thesis using byte_range [of b] by (intro exI [of _ 1]) (simp add: digit_ok_def)
next
  case (two d e)
  then show ?thesis using byte_range [of b] by (intro exI [of _ 2]) (auto simp: digit_ok_def numeral_2_eq_2)
next
  case (three d e f)
  then show ?thesis using byte_range [of b] by (intro exI [of _ 3]) (auto simp: digit_ok_def numeral_3_eq_3)
qed

text \<open>A byte is read as the digits of a group, too, when an IPv4 tail follows an IPv6 prefix.\<close>

lemma uint_shift_add:
  assumes "uint acc \<le> 0x999" "uint d \<le> 9"
  shows "uint (push_bit 4 acc + d :: 32 word) = uint acc * 16 + uint d"
proof -
  have "uint (push_bit 4 acc) = uint acc * 16"
    using assms(1) by (simp add: push_bit_eq_mult uint_word_ariths(3) mod_pos_pos_trivial)
  then show ?thesis using assms by (simp add: uint_word_ariths(1) mod_pos_pos_trivial)
qed

lemma hex_run_small:
  assumes "hex_val c = Some d" "off \<le> 3" "uint acc \<le> 0x999" "uint d \<le> 9"
  shows "hex_run off acc (c # s) = hex_run (Suc off) (push_bit 4 acc + d) s"
proof -
  have "\<not> push_bit 4 acc + d > 0xffff"
    using uint_shift_add [OF assms(3,4)] assms(3,4) by (simp add: word_less_def)
  with assms(1,2) show ?thesis by simp
qed

lemma hex_run_byte:
  "\<exists>off acc. off \<noteq> 0 \<and> hex_run 0 0 (dec_string b @ CHR ''.'' # s) = Some (off, acc, CHR ''.'' # s)"
proof -
  have dot: "hex_run off acc (CHR ''.'' # s) = Some (off, acc, CHR ''.'' # s)" for off acc
    by (simp add: hex_val_def is_digit_def less_eq_char_def)
  have u: "uint (ucast d :: 32 word) = uint d" for d :: byte by (simp add: uint_up_ucast is_up)
  show ?thesis
  proof (cases b rule: dec_string_cases)
    case (one d)
    then show ?thesis
      by - (rule exI [of _ 1], simp add: digit_ok_def hex_run_small uint_shift_add u dot del: hex_run.simps)
  next
    case (two d e)
    then show ?thesis
      by - (rule exI [of _ 2], simp add: digit_ok_def hex_run_small uint_shift_add u dot numeral_2_eq_2 del: hex_run.simps)
  next
    case (three d e f)
    then show ?thesis
      by - (rule exI [of _ 3], simp add: digit_ok_def hex_run_small uint_shift_add u dot numeral_3_eq_3 del: hex_run.simps)
  qed
qed

lemma digits_no_dot: "c \<in> set (dec_string b) \<Longrightarrow> is_digit c"
  by (cases b rule: dec_string_cases) (auto simp: digit_ok_def)

section \<open>IPv4\<close>

lemma v4_loop_last:
  "length fs = 3 \<Longrightarrow> v4_loop fs 0 0 (dec_string b) = Some (fs @ [b])"
  using v4_loop_byte [of fs b "[]"] by auto

lemma v4_loop_field:
  assumes "length fs < 3" "s \<noteq> []"
  shows "v4_loop fs 0 0 (dec_string b @ CHR ''.'' # s) = v4_loop (fs @ [b]) 0 0 s"
proof -
  have "\<not> is_digit CHR ''.''" by (simp add: is_digit_def less_eq_char_def)
  with assms v4_loop_byte [of fs b "CHR ''.'' # s"] show ?thesis by auto
qed

lemma dec_string_not_Nil [simp]: "dec_string b \<noteq> []"
  by (cases b rule: dec_string_cases) auto

lemma parse_v4_text:
  "parse_v4_fields (str_join (map dec_string [a, b, c, d]) ''.'') = Some [a, b, c, d]"
  by (simp add: parse_v4_fields_def v4_loop_field v4_loop_last)

text \<open>Reading the bytes or groups of a word back.\<close>

lemma bytes_word_take:
  fixes w :: "'a::len word"
  assumes "LENGTH('a) = 8 * n" "k \<le> n"
  shows "foldl (\<lambda>w b. push_bit 8 w OR ucast b) 0
      (map (\<lambda>i. ucast (drop_bit (8 * (n - 1 - i)) w) :: byte) [0..<k]) = drop_bit (8 * (n - k)) w"
  using assms(2)
proof (induction k)
  case 0
  then show ?case using assms(1) by (auto intro!: bit_word_eqI simp: bit_simps dest: bit_imp_le_length)
next
  case (Suc k)
  define m where "m = 8 * (n - Suc k)"
  have m: "8 * (n - k) = m + 8" "8 * (n - 1 - k) = m" using Suc.prems by (simp_all add: m_def)
  have "push_bit 8 (drop_bit (m + 8) w) OR ucast (ucast (drop_bit m w) :: byte) = drop_bit m w"
  proof (rule bit_word_eqI)
    fix i assume "i < LENGTH('a)"
    then show "bit (push_bit 8 (drop_bit (m + 8) w) OR ucast (ucast (drop_bit m w) :: byte)) i =
        bit (drop_bit m w) i"
      by (cases "i < 8") (auto simp: bit_simps ac_simps dest!: le_Suc_ex [of 8 i, OF leI])
  qed
  with Suc m show ?case by (simp add: m_def [symmetric])
qed

lemma bytes_word_bytes:
  fixes w :: "'a::len word"
  assumes "LENGTH('a) = 8 * n"
  shows "bytes_word (word_bytes n w) = w"
  using bytes_word_take [OF assms, of n w] by (simp add: bytes_word_def word_bytes_def)

lemma word_bytes4: "word_bytes 4 v =
    [ucast (drop_bit 24 v), ucast (drop_bit 16 v), ucast (drop_bit 8 v), ucast v]"
  by (simp add: word_bytes_def upt_rec)

lemma parse_v4_string: "parse_v4_fields (v4_string v) = Some (word_bytes 4 v)"
  unfolding v4_string_def word_bytes4 by (rule parse_v4_text)

lemma parse_ipv4_string: "parse_ipv4 (v4_string v) = Some (IP4 v)"
  using bytes_word_bytes [of 4 v] by (simp add: parse_ipv4_def parse_v4_string)

section \<open>Groups\<close>

lemma hex_stop: "hex_val CHR '':'' = None" "hex_val CHR ''.'' = None"
  by (simp_all add: hex_val_def is_digit_def less_eq_char_def)

text \<open>The value of a group after its digits down to bit \<open>k\<close>.\<close>

lemma group_step:
  fixes x :: group
  shows "push_bit 4 (ucast (drop_bit (k + 4) x)) + ucast (drop_bit k x AND 0xf) = (ucast (drop_bit k x) :: 32 word)"
proof -
  have z: "push_bit 4 (ucast (drop_bit (k + 4) x)) AND ucast (drop_bit k x AND 0xf) = (0 :: 32 word)"
    by (rule bit_word_eqI) (auto simp: bit_simps bit_numeral_rec split: nat.splits)
  have f: "(0xf :: group) = mask 4" by (simp add: mask_numeral)
  have "push_bit 4 (ucast (drop_bit (k + 4) x)) OR ucast (drop_bit k x AND 0xf) = (ucast (drop_bit k x) :: 32 word)"
  proof (rule bit_word_eqI)
    fix i assume "i < LENGTH(32)"
    show "bit (push_bit 4 (ucast (drop_bit (k + 4) x)) OR ucast (drop_bit k x AND 0xf) :: 32 word) i =
        bit (ucast (drop_bit k x) :: 32 word) i"
      unfolding f
      by (cases "i < 4") (auto simp: bit_simps ac_simps dest!: le_Suc_ex [of 4 i, OF leI] dest: bit_imp_le_length)
  qed
  with z show ?thesis by (simp add: disjunctive_add_eq_or)
qed

lemma hex_run_digit:
  fixes x :: group
  assumes "off \<le> 3"
  shows "hex_run off (ucast (drop_bit (k + 4) x)) (digit_char (drop_bit k x AND 0xf) # s) =
    hex_run (Suc off) (ucast (drop_bit k x)) s"
proof -
  have "drop_bit k x AND 0xf \<le> 15" by (rule word_and_le1)
  then have v: "hex_val (digit_char (drop_bit k x AND 0xf)) = Some (ucast (drop_bit k x AND 0xf))"
    using nibble by (simp add: nibble_ok_def)
  have "uint (ucast (drop_bit k x) :: 32 word) = uint (drop_bit k x)" by (simp add: uint_up_ucast is_up)
  then have "\<not> (ucast (drop_bit k x) :: 32 word) > 0xffff"
    using uint_range_size [of "drop_bit k x"] by (simp add: word_less_def word_size)
  with assms v show ?thesis by (simp add: group_step)
qed

lemma drop_bit_less:
  fixes x :: group
  assumes "k < 16" shows "\<not> x \<ge> 2 ^ k \<longleftrightarrow> drop_bit k x = 0"
proof -
  have p: "uint ((2 :: group) ^ k) = 2 ^ k" using assms by (intro uint_2p) (simp add: word_gt_0)
  have "drop_bit k x = 0 \<longleftrightarrow> uint x div 2 ^ k = 0"
    by (simp add: word_uint_eq_iff drop_bit_eq_div uint_div p)
  also have "\<dots> \<longleftrightarrow> uint x < 2 ^ k"
    using uint_range_size [of x] by (auto simp: div_eq_0_iff zdiv_eq_0_iff)
  finally show ?thesis using p by (simp add: word_le_def not_le)
qed

lemma drop_bit_more: "drop_bit k (x :: group) = 0 \<Longrightarrow> drop_bit (m + k) x = 0"
proof -
  assume z: "drop_bit k x = 0"
  have "drop_bit (m + k) x = drop_bit m (drop_bit k x)" by (simp add: drop_bit_drop_bit)
  with z show ?thesis by simp
qed

lemma hex_string_run:
  "\<exists>n. n \<noteq> 0 \<and> hex_run 0 0 (hex_string x @ s) = hex_run n (ucast x) s"
proof -
  note step = hex_run_digit [where x = x]
  have top: "digit_char (drop_bit 12 x) = digit_char (drop_bit 12 x AND 0xf)"
  proof -
    have f: "(0xf :: group) = mask 4" by (simp add: mask_numeral)
    have "drop_bit 12 x AND 0xf = drop_bit 12 x"
      unfolding f by (intro bit_word_eqI) (auto simp: bit_simps dest: bit_imp_le_length)
    then show ?thesis by simp
  qed
  have z: "drop_bit 16 x = 0" by (rule bit_word_eqI) (auto simp: bit_simps dest: bit_imp_le_length)
  have z84: "drop_bit 4 x \<noteq> 0" if "drop_bit 8 x \<noteq> 0"
    using that drop_bit_more [of 4 x 4] by auto
  have z128: "drop_bit 8 x \<noteq> 0" if "drop_bit 12 x \<noteq> 0"
    using that drop_bit_more [of 8 x 4] by auto
  have l: "x \<ge> 0x1000 \<longleftrightarrow> drop_bit 12 x \<noteq> 0" "x \<ge> 0x100 \<longleftrightarrow> drop_bit 8 x \<noteq> 0"
    "x \<ge> 0x10 \<longleftrightarrow> drop_bit 4 x \<noteq> 0"
    using drop_bit_less [of 12 x] drop_bit_less [of 8 x] drop_bit_less [of 4 x] by auto
  show ?thesis
  proof (cases "drop_bit 12 x = 0")
    case True
    show ?thesis
    proof (cases "drop_bit 8 x = 0")
      case True8: True
      show ?thesis
      proof (cases "drop_bit 4 x = 0")
        case True4: True
        then show ?thesis
          using step [of 0 0 s] True True8 by (intro exI [of _ "Suc 0"]) (simp add: hex_string_def l del: hex_run.simps)
      next
        case False
        then show ?thesis
          using step [of 0 4] step [of 1 0] True True8
          by (intro exI [of _ "Suc (Suc 0)"]) (simp add: hex_string_def l del: hex_run.simps)
      qed
    next
      case False
      have "drop_bit 4 x \<noteq> 0" using False by (rule z84)
      then show ?thesis
        using step [of 0 8] step [of 1 4] step [of 2 0] True False
        by (intro exI [of _ "Suc (Suc (Suc 0))"]) (simp add: hex_string_def l numeral_2_eq_2 del: hex_run.simps)
    qed
  next
    case False
    then have e: "drop_bit 8 x \<noteq> 0" by (rule z128)
    then have "drop_bit 4 x \<noteq> 0" by (rule z84)
    with e False show ?thesis
      using step [of 0 12] step [of 1 8] step [of 2 4] step [of 3 0] z
      by (intro exI [of _ "Suc (Suc (Suc (Suc 0)))"])
        (simp add: hex_string_def l top numeral_2_eq_2 numeral_3_eq_3 del: hex_run.simps)
  qed
qed

lemma hex_run_end: "hex_run n acc [] = Some (n, acc, [])"
    "hex_run n acc (CHR '':'' # s) = Some (n, acc, CHR '':'' # s)"
  by (simp_all add: hex_stop)

declare hex_run.simps [simp del]

definition hex_chars :: "char set" where
  "hex_chars = set ''0123456789abcdef''"

lemma hex_chars_not: "CHR '':'' \<notin> hex_chars" "CHR ''.'' \<notin> hex_chars" "CHR ''%'' \<notin> hex_chars"
  by (simp_all add: hex_chars_def)

lemma hex_string_chars: "c \<in> set (hex_string x) \<Longrightarrow> c \<in> hex_chars"
proof -
  have d: "digit_char (drop_bit k x AND 0xf) \<in> hex_chars" for k
    using nibble [of "drop_bit k x AND 0xf"] word_and_le1 by (auto simp: nibble_ok_def hex_chars_def)
  have "digit_char (drop_bit 12 x) \<in> hex_chars"
  proof -
    have f: "(0xf :: group) = mask 4" by (simp add: mask_numeral)
    have "drop_bit 12 x AND 0xf = drop_bit 12 x"
      unfolding f by (intro bit_word_eqI) (auto simp: bit_simps dest: bit_imp_le_length)
    with d [of 12] show ?thesis by simp
  qed
  moreover assume "c \<in> set (hex_string x)"
  ultimately show ?thesis
    using d [of 8] d [of 4] d [of 0] unfolding hex_string_def
    by (auto split: if_split_asm)
qed

lemma hex_string_not_Nil [simp]: "hex_string x \<noteq> []"
  by (simp add: hex_string_def)

text \<open>The text of a list of groups begins with a digit.\<close>

definition groups_text :: "group list \<Rightarrow> string" where
  "groups_text gs = str_join (map hex_string gs) '':''"

lemma groups_text_simps:
  "groups_text [] = []" "groups_text [g] = hex_string g"
  "gs \<noteq> [] \<Longrightarrow> groups_text (g # gs) = hex_string g @ CHR '':'' # groups_text gs"
  by (simp_all add: groups_text_def) (cases gs; simp)

lemma groups_text_head:
  assumes "gs \<noteq> []"
  obtains c s where "groups_text gs = c # s" "c \<in> hex_chars"
proof -
  obtain g gs' where gs: "gs = g # gs'" using assms by (cases gs) auto
  obtain c s where h: "hex_string g = c # s" by (cases "hex_string g") auto
  then have "c \<in> hex_chars" using hex_string_chars [of c g] by simp
  with h gs that show ?thesis by (cases "gs' = []") (auto simp: groups_text_simps)
qed

lemma groups_text_Nil: "groups_text gs = [] \<longleftrightarrow> gs = []"
  by (metis groups_text_head groups_text_simps(1) list.distinct(1))

lemma ucast_group: "ucast (ucast (g :: group) :: 32 word) = g"
  by (rule bit_word_eqI) (auto simp: bit_simps)

lemma hex_string_group:
  obtains n where "n \<noteq> 0" "hex_run 0 0 (hex_string g @ CHR '':'' # s) = Some (n, ucast g, CHR '':'' # s)"
  using hex_string_run [of g "CHR '':'' # s"] by (auto simp: hex_run_end)

lemma v6_loop_last:
  "v6_loop (Suc n) gs ell (hex_string g) = Some (gs @ [g], ell, [])"
proof -
  obtain k where "k \<noteq> 0" "hex_run 0 0 (hex_string g) = Some (k, ucast g, [])"
    using hex_string_run [of g "[]"] by (auto simp: hex_run_end)
  then show ?thesis by (simp add: ucast_group)
qed

lemma v6_loop_group:
  assumes "r = c # s" "c \<noteq> CHR '':''"
  shows "v6_loop (Suc n) gs ell (hex_string g @ CHR '':'' # r) = v6_loop n (gs @ [g]) ell r"
proof -
  obtain k where "k \<noteq> 0" "hex_run 0 0 (hex_string g @ CHR '':'' # r) = Some (k, ucast g, CHR '':'' # r)"
    by (rule hex_string_group)
  with assms show ?thesis by (simp add: ucast_group)
qed

lemma v6_loop_gap:
  "v6_loop (Suc n) gs None (hex_string g @ CHR '':'' # CHR '':'' # r) =
     (if r = [] then Some (gs @ [g], Some (Suc (length gs)), [])
      else v6_loop n (gs @ [g]) (Some (Suc (length gs))) r)"
proof -
  obtain k where "k \<noteq> 0" "hex_run 0 0 (hex_string g @ CHR '':'' # CHR '':'' # r) =
      Some (k, ucast g, CHR '':'' # CHR '':'' # r)"
    by (rule hex_string_group)
  then show ?thesis by (simp add: ucast_group)
qed

lemma v6_loop_groups:
  assumes "gs \<noteq> []"
  shows "v6_loop (length gs + m) acc ell (groups_text gs) = Some (acc @ gs, ell, [])"
  using assms
proof (induction gs arbitrary: acc)
  case (Cons g gs)
  show ?case
  proof (cases "gs = []")
    case True
    then show ?thesis by (simp add: groups_text_simps v6_loop_last del: v6_loop.simps)
  next
    case False
    then obtain c s where h: "groups_text gs = c # s" "c \<in> hex_chars"
      by (rule groups_text_head)
    then have "c \<noteq> CHR '':''" using hex_chars_not by auto
    with h have "v6_loop (Suc (length gs + m)) acc ell (hex_string g @ CHR '':'' # groups_text gs) =
        v6_loop (length gs + m) (acc @ [g]) ell (groups_text gs)"
      by (intro v6_loop_group)
    with False Cons.IH [OF False, of "acc @ [g]"] show ?thesis
      by (simp add: groups_text_simps del: v6_loop.simps)
  qed
qed simp

lemma v6_loop_before_gap:
  assumes "gs \<noteq> []"
  shows "v6_loop (length gs + m) acc None (groups_text gs @ CHR '':'' # CHR '':'' # r) =
    (if r = [] then Some (acc @ gs, Some (length acc + length gs), [])
     else v6_loop m (acc @ gs) (Some (length acc + length gs)) r)"
  using assms
proof (induction gs arbitrary: acc)
  case (Cons g gs)
  show ?case
  proof (cases "gs = []")
    case True
    then show ?thesis by (simp add: groups_text_simps v6_loop_gap del: v6_loop.simps)
  next
    case False
    then obtain c s where h: "groups_text gs = c # s" "c \<in> hex_chars"
      by (rule groups_text_head)
    have "v6_loop (Suc (length gs + m)) acc None
          (hex_string g @ CHR '':'' # groups_text gs @ CHR '':'' # CHR '':'' # r) =
        v6_loop (length gs + m) (acc @ [g]) None (groups_text gs @ CHR '':'' # CHR '':'' # r)"
      by (rule v6_loop_group [of _ c]) (use h hex_chars_not in auto)
    with False Cons.IH [OF False, of "acc @ [g]"] show ?thesis
      by (simp add: groups_text_simps del: v6_loop.simps)
  qed
qed simp

section \<open>The run of zeros\<close>

lemma zero_run_take: "take (zero_run gs) gs = replicate (zero_run gs) 0 \<and> zero_run gs \<le> length gs"
  by (induction gs) auto

lemma best_run_spec:
  "best_run i best gs = best \<or>
   (\<exists>j < length gs. best_run i best gs = (i + j, zero_run (drop j gs)) \<and> 2 \<le> zero_run (drop j gs))"
proof (induction gs arbitrary: i best)
  case Nil
  then show ?case by simp
next
  case (Cons g gs)
  let ?l = "zero_run (g # gs)"
  let ?best = "if 2 \<le> ?l \<and> snd best < ?l then (i, ?l) else best"
  have eq: "best_run i best (g # gs) = best_run (Suc i) ?best gs" by (simp add: Let_def)
  from Cons.IH [of "Suc i" ?best] show ?case
  proof
    assume "best_run (Suc i) ?best gs = ?best"
    with eq show ?thesis
      by (cases "2 \<le> ?l \<and> snd best < ?l") (auto intro!: exI [of _ 0])
  next
    assume "\<exists>j < length gs. best_run (Suc i) ?best gs = (Suc i + j, zero_run (drop j gs)) \<and>
      2 \<le> zero_run (drop j gs)"
    then obtain j where "j < length gs"
      "best_run (Suc i) ?best gs = (Suc i + j, zero_run (drop j gs))" "2 \<le> zero_run (drop j gs)" by blast
    with eq show ?thesis by (intro disjI2 exI [of _ "Suc j"]) simp
  qed
qed

text \<open>The text of a word: its groups, or the groups before and after a run of zeros.\<close>

lemma v6_string_cases:
  obtains (plain) "v6_string w = groups_text (v6_groups w)"
  | (gap) i l where "2 \<le> l" "i + l \<le> 8" "take i (v6_groups w) @ replicate l 0 @ drop (i + l) (v6_groups w) = v6_groups w"
      "v6_string w = groups_text (take i (v6_groups w)) @ ''::'' @ groups_text (drop (i + l) (v6_groups w))"
proof -
  let ?gs = "v6_groups w"
  obtain i l where b: "best_run 0 (0, 0) ?gs = (i, l)" by force
  have len: "length ?gs = 8" by (simp add: v6_groups_def)
  show thesis
  proof (cases "l = 0")
    case True
    with b show ?thesis by (intro plain) (simp add: v6_string_def groups_text_def)
  next
    case False
    with best_run_spec [of 0 "(0, 0)" ?gs] b
    have l: "l = zero_run (drop i ?gs)" "2 \<le> l" "i < 8" by (auto simp: len)
    with zero_run_take [of "drop i ?gs"] have t: "take l (drop i ?gs) = replicate l 0" "l \<le> 8 - i"
      by (auto simp: len)
    have "take i ?gs @ replicate l 0 @ drop (i + l) ?gs = ?gs"
      unfolding t(1) [symmetric] by (metis append_take_drop_id drop_drop add.commute)
    with False b l t show ?thesis
      by (intro gap [of l i]) (simp_all add: v6_string_def groups_text_def Let_def)
  qed
qed

lemma v6_groups_length [simp]: "length (v6_groups w) = 8"
  by (simp add: v6_groups_def)

lemma groups_text_no_gap:
  assumes "gs \<noteq> []"
  shows "parse_v6_groups (groups_text gs @ r) = Option.bind (v6_loop 8 [] None (groups_text gs @ r)) v6_finish"
proof -
  obtain c s where "groups_text gs = c # s" "c \<in> hex_chars" using assms by (rule groups_text_head)
  then have "groups_text gs @ r = c # (s @ r)" "c \<noteq> CHR '':''" using hex_chars_not by auto
  then show ?thesis by (simp add: parse_v6_groups_def split: list.split)
qed

lemma parse_v6_string: "parse_v6_groups (v6_string w) = Some (v6_groups w)"
proof (cases w rule: v6_string_cases)
  case plain
  have ne: "v6_groups w \<noteq> []" by (simp add: v6_groups_def)
  have "v6_loop 8 [] None (groups_text (v6_groups w)) = Some (v6_groups w, None, [])"
    using v6_loop_groups [OF ne, of 0 "[]" None] by simp
  then show ?thesis
    using groups_text_no_gap [OF ne, of "[]"] by (simp add: plain v6_finish_def)
next
  case (gap i l)
  let ?gs = "v6_groups w"
  let ?a = "take i ?gs" and ?b = "drop (i + l) ?gs"
  have lens: "length ?a = i" "length ?b = 8 - (i + l)" using gap(2) by simp_all
  have fin: "v6_finish (?a @ ?b, Some i, []) = Some ?gs"
  proof -
    have "8 - (i + (8 - (i + l))) = l" using gap(1,2) by simp
    with gap lens show ?thesis by (simp add: v6_finish_def)
  qed
  have tail: "v6_loop (8 - i) ?a (Some i) (groups_text ?b) = Some (?a @ ?b, Some i, [])" if "?b \<noteq> []"
    using v6_loop_groups [OF that, of l ?a "Some i"] lens gap(1,2) by simp
  show ?thesis
  proof (cases "i = 0")
    case True
    then have str: "v6_string w = CHR '':'' # CHR '':'' # groups_text ?b"
      by (simp add: gap(4) groups_text_simps)
    show ?thesis
    proof (cases "?b = []")
      case b: True
      with gap(3) True have "?gs = replicate l 0" by simp
      then have "?gs = replicate 8 0" by (metis length_replicate v6_groups_length)
      then show ?thesis
        using b True by (simp add: str parse_v6_groups_def groups_text_simps)
    next
      case False
      then have "groups_text ?b \<noteq> []" by (rule groups_text_head) simp
      with tail [OF False] fin True show ?thesis
        by (simp add: str parse_v6_groups_def del: v6_loop.simps)
    qed
  next
    case False
    then have ne: "?a \<noteq> []" by (simp add: v6_groups_def)
    have bt: "groups_text ?b = [] \<longleftrightarrow> ?b = []" by (rule groups_text_Nil)
    have "v6_loop 8 [] None (groups_text ?a @ CHR '':'' # CHR '':'' # groups_text ?b) =
        Some (?a @ ?b, Some i, [])"
      using v6_loop_before_gap [OF ne, of "8 - i" "[]" "groups_text ?b"] tail gap(1,2) lens bt
      by (auto simp del: v6_loop.simps)
    with fin show ?thesis
      using groups_text_no_gap [OF ne, of "CHR '':'' # CHR '':'' # groups_text ?b"]
      by (simp add: gap(4) del: v6_loop.simps)
  qed
qed

section \<open>Addresses\<close>

lemma groups_word_take:
  fixes w :: "128 word"
  assumes "k \<le> 8"
  shows "foldl (\<lambda>w g. push_bit 16 w OR ucast g) 0
      (map (\<lambda>i. ucast (drop_bit (16 * (7 - i)) w) :: group) [0..<k]) = drop_bit (16 * (8 - k)) w"
  using assms
proof (induction k)
  case 0
  then show ?case by (auto intro!: bit_word_eqI simp: bit_simps dest: bit_imp_le_length)
next
  case (Suc k)
  define m where "m = 16 * (8 - Suc k)"
  have m: "16 * (8 - k) = m + 16" "16 * (7 - k) = m" using Suc.prems by (simp_all add: m_def)
  have "push_bit 16 (drop_bit (m + 16) w) OR ucast (ucast (drop_bit m w) :: group) = drop_bit m w"
  proof (rule bit_word_eqI)
    fix i assume "i < LENGTH(128)"
    then show "bit (push_bit 16 (drop_bit (m + 16) w) OR ucast (ucast (drop_bit m w) :: group)) i =
        bit (drop_bit m w) i"
      by (cases "i < 16") (auto simp: bit_simps ac_simps dest!: le_Suc_ex [of 16 i, OF leI])
  qed
  with Suc m show ?case by (simp add: m_def [symmetric])
qed

lemma groups_word_groups: "groups_word (v6_groups w) = w"
  using groups_word_take [of 8 w] by (simp add: groups_word_def v6_groups_def)

lemma groups_text_chars: "c \<in> set (groups_text gs) \<Longrightarrow> c \<in> hex_chars \<or> c = CHR '':''"
proof (induction gs)
  case (Cons g gs)
  then show ?case by (cases "gs = []") (auto simp: groups_text_simps dest: hex_string_chars)
qed (simp add: groups_text_simps)

lemma v6_string_no_zone: "CHR ''%'' \<notin> set (v6_string w)"
  by (cases w rule: v6_string_cases) (auto simp: hex_chars_not dest!: groups_text_chars)

lemma dec_string_no: "\<not> is_digit c \<Longrightarrow> c \<notin> set (dec_string b)"
  using digits_no_dot by blast

lemma v4_string_form:
  "v4_string v = dec_string (ucast (drop_bit 24 v)) @ CHR ''.'' # dec_string (ucast (drop_bit 16 v)) @
     CHR ''.'' # dec_string (ucast (drop_bit 8 v)) @ CHR ''.'' # dec_string (ucast v)"
  by (simp add: v4_string_def word_bytes4)

lemma not_digits: "\<not> is_digit CHR ''%''" "\<not> is_digit CHR '':''" "\<not> is_digit CHR ''.''"
  by (simp_all add: is_digit_def less_eq_char_def)

lemma v4_string_no: "c \<noteq> CHR ''.'' \<Longrightarrow> \<not> is_digit c \<Longrightarrow> c \<notin> set (v4_string v)"
  by (auto simp: v4_string_form dest: digits_no_dot)

text \<open>An IPv4-mapped address: five zero groups, \<open>ffff\<close>, and the two groups of the IPv4 address.\<close>

lemma mapped_groups:
  assumes "mapped4 w"
  shows "replicate 5 0 @ [0xffff, bytes_word [ucast (drop_bit 24 (ucast w :: 32 word)),
      ucast (drop_bit 16 (ucast w :: 32 word))], bytes_word [ucast (drop_bit 8 (ucast w :: 32 word)),
      ucast (ucast w :: 32 word)]] = v6_groups w"
proof -
  have hi: "drop_bit (32 + k) w = drop_bit k 0xffff" for k
    using assms by (metis mapped4_def drop_bit_drop_bit add.commute)
  have lo: "bytes_word [ucast (drop_bit (8 + k) (ucast w :: 32 word)), ucast (drop_bit k (ucast w :: 32 word))]
      = (ucast (drop_bit k w) :: group)" if "k \<le> 16" for k
  proof (rule bit_word_eqI)
    fix i assume "i < LENGTH(16)"
    then show "bit (bytes_word [ucast (drop_bit (8 + k) (ucast w :: 32 word)),
        ucast (drop_bit k (ucast w :: 32 word))] :: group) i = bit (ucast (drop_bit k w) :: group) i"
      using that by (cases "i < 8")
        (auto simp: bytes_word_def bit_simps ac_simps dest!: le_Suc_ex [of 8 i, OF leI])
  qed
  have rep: "replicate 5 (0 :: group) = [0, 0, 0, 0, 0]" by (simp add: numeral_eq_Suc)
  have "v6_groups w = [ucast (drop_bit 112 w), ucast (drop_bit 96 w), ucast (drop_bit 80 w),
      ucast (drop_bit 64 w), ucast (drop_bit 48 w), ucast (drop_bit 32 w), ucast (drop_bit 16 w), ucast w]"
    by (simp add: v6_groups_def upt_rec)
  then show ?thesis
    using hi [of 80] hi [of 64] hi [of 48] hi [of 32] hi [of 16] hi [of 0] lo [of 16] lo [of 0]
    by (simp add: rep)
qed

lemma hex_string_ffff: "hex_string 0xffff = ''ffff''"
  by code_simp

lemma parse_v6_mapped:
  assumes "mapped4 w"
  shows "parse_v6_groups (''::ffff:'' @ v4_string (ucast w)) = Some (v6_groups w)"
proof -
  let ?v = "ucast w :: 32 word"
  let ?r = "dec_string (ucast (drop_bit 16 ?v)) @ CHR ''.'' # dec_string (ucast (drop_bit 8 ?v)) @
    CHR ''.'' # dec_string (ucast ?v)"
  obtain off acc where h: "off \<noteq> 0" "hex_run 0 0 (v4_string ?v) = Some (off, acc, CHR ''.'' # ?r)"
    using hex_run_byte [of "ucast (drop_bit 24 ?v)" ?r] by (auto simp: v4_string_form)
  have v4: "parse_v4_fields (v4_string ?v) =
      Some [ucast (drop_bit 24 ?v), ucast (drop_bit 16 ?v), ucast (drop_bit 8 ?v), ucast ?v]"
    unfolding parse_v4_string word_bytes4 ..
  obtain c s where cs: "v4_string ?v = c # s" "c \<noteq> CHR '':''"
  proof -
    have "v4_string ?v \<noteq> []" by (simp add: v4_string_form)
    then obtain c s where "v4_string ?v = c # s" by (cases "v4_string ?v") auto
    moreover from this have "c \<noteq> CHR '':''" using v4_string_no [of "CHR '':''" ?v] not_digits by auto
    ultimately show ?thesis by (rule that)
  qed
  have 1: "v6_loop 8 [] (Some 0) (hex_string 0xffff @ CHR '':'' # v4_string ?v) =
      v6_loop 7 [0xffff] (Some 0) (v4_string ?v)"
    using v6_loop_group [OF cs, where n = 7 and gs = "[]" and ell = "Some 0" and g = "0xffff"] by (simp add: eval_nat_numeral)
  have "v6_loop (Suc 6) [0xffff] (Some 0) (v4_string ?v) = Some ([0xffff,
      bytes_word [ucast (drop_bit 24 ?v), ucast (drop_bit 16 ?v)],
      bytes_word [ucast (drop_bit 8 ?v), ucast ?v]], Some 0, [])"
    using h v4 by (subst v6_loop.simps(2)) simp
  then have 2: "v6_loop 7 [0xffff] (Some 0) (v4_string ?v) = Some ([0xffff,
      bytes_word [ucast (drop_bit 24 ?v), ucast (drop_bit 16 ?v)],
      bytes_word [ucast (drop_bit 8 ?v), ucast ?v]], Some 0, [])"
    by simp
  have "''::ffff:'' @ v4_string ?v = CHR '':'' # CHR '':'' # hex_string 0xffff @ CHR '':'' # v4_string ?v"
    by (simp add: hex_string_ffff)
  then have "parse_v6_groups (''::ffff:'' @ v4_string ?v) =
      Option.bind (v6_loop 8 [] (Some 0) (hex_string 0xffff @ CHR '':'' # v4_string ?v)) v6_finish"
    by (simp only: parse_v6_groups_def list.case) (simp del: v6_loop.simps)
  also have "\<dots> = Some (v6_groups w)"
    unfolding 1 2 using mapped_groups [OF assms] by (simp add: v6_finish_def)
  finally show ?thesis .
qed

definition v6_text :: "128 word \<Rightarrow> string" where
  "v6_text w = (if mapped4 w then ''::ffff:'' @ v4_string (ucast w) else v6_string w)"

lemma v6_text_no_zone: "CHR ''%'' \<notin> set (v6_text w)"
  using v6_string_no_zone v4_string_no [of "CHR ''%''"] not_digits by (auto simp: v6_text_def)

lemma parse_v6_text: "parse_v6_groups (v6_text w) = Some (v6_groups w)"
  by (cases "mapped4 w") (simp_all only: v6_text_def if_True if_False parse_v6_mapped parse_v6_string)

lemma parse_ipv6_string:
  "parse_ipv6 (v6_text w @ (if z = [] then [] else CHR ''%'' # z)) = Some (IP6 w z)"
proof (cases "z = []")
  case True
  have "cut CHR ''%'' (v6_text w) = None" by (simp add: cut_None v6_text_no_zone)
  with True show ?thesis by (simp add: parse_ipv6_def parse_v6_text groups_word_groups)
next
  case False
  then show ?thesis
    by (simp add: parse_ipv6_def cut_append_sep v6_text_no_zone parse_v6_text groups_word_groups)
qed

lemma scan_plain:
  "CHR ''.'' \<notin> set a \<Longrightarrow> CHR '':'' \<notin> set a \<Longrightarrow> CHR ''%'' \<notin> set a \<Longrightarrow>
   parse_addr_scan s (a @ r) = parse_addr_scan s r"
  by (induction a) auto

lemma hex_string_plain: "c \<in> {CHR ''.'', CHR '':'', CHR ''%''} \<Longrightarrow> c \<notin> set (hex_string g)"
  using hex_string_chars [of c g] hex_chars_not by auto

text \<open>The first mark in the text of an IPv6 address is a colon.\<close>

lemma groups_text_scan:
  assumes "2 \<le> length gs \<or> hd (r @ ''x'') = CHR '':''"
  shows "parse_addr_scan s (groups_text gs @ r) = parse_ipv6 s"
proof (cases gs)
  case Nil
  with assms show ?thesis by (cases r) (auto simp: groups_text_simps)
next
  case (Cons g gs')
  show ?thesis
  proof (cases "gs' = []")
    case True
    with Cons assms show ?thesis
      by (cases r) (auto simp: groups_text_simps scan_plain hex_string_plain)
  next
    case False
    then show ?thesis by (simp add: Cons groups_text_simps scan_plain hex_string_plain)
  qed
qed

lemma v6_text_scan: "parse_addr_scan s (v6_text w @ r) = parse_ipv6 s"
proof (cases "mapped4 w")
  case True
  then show ?thesis by (simp add: v6_text_def)
next
  case False
  then show ?thesis
    by (cases w rule: v6_string_cases) (simp_all add: v6_text_def groups_text_scan)
qed

lemma parse_addr_text: "is_valid a \<Longrightarrow> parse_addr (addr_string a) = Some a"
proof (cases a)
  case (IP4 v)
  have "parse_addr_scan s (v4_string v) = parse_ipv4 s" for s
    using dec_string_no not_digits by (simp add: v4_string_form scan_plain)
  then show ?thesis by (simp add: IP4 parse_addr_def parse_ipv4_string)
next
  case (IP6 w z)
  have str: "addr_string (IP6 w z) = v6_text w @ (if z = [] then [] else CHR ''%'' # z)"
    by (simp add: v6_text_def)
  have "parse_addr (addr_string (IP6 w z)) = Some (IP6 w z)"
    unfolding parse_addr_def str v6_text_scan by (rule parse_ipv6_string)
  then show ?thesis by (simp only: IP6)
qed simp

lemma addr_string_inj: "is_valid a \<Longrightarrow> is_valid b \<Longrightarrow> addr_string a = addr_string b \<Longrightarrow> a = b"
  by (metis option.inject parse_addr_text)

text \<open>The wire form, too: \<open>AddrFromSlice\<close> undoes \<open>AsSlice\<close>, but for the zone.\<close>

lemma addr_slice_round: "is_valid a \<Longrightarrow> addr_from_slice (as_slice a) = Some (without_zone a)"
proof (cases a)
  case (IP4 v)
  then show ?thesis using bytes_word_bytes [of 4 v] by (simp add: addr_from_slice_def)
next
  case (IP6 w z)
  then show ?thesis using bytes_word_bytes [of 16 w] by (simp add: addr_from_slice_def)
qed simp

text \<open>The characters of an address without zone.\<close>

lemma addr_string_chars:
  assumes "is_valid a" "addr_zone a = []" "c \<in> set (addr_string a)"
  shows "c \<in> hex_chars \<or> c = CHR '':'' \<or> c = CHR ''.''"
proof -
  have d: "c \<in> hex_chars" if "c \<in> set (dec_string b)" for b
  proof -
    have h: "digit_char d \<in> hex_chars" if "digit_ok d" for d
    proof -
      have "uint d \<le> 9" using that by (simp add: digit_ok_def)
      moreover have "int (unat d) = uint d" by simp
      ultimately have "unat d < 16" by linarith
      then have "unat d < length ''0123456789abcdef''" by simp
      then show ?thesis unfolding digit_char_def hex_chars_def by (rule nth_mem)
    qed
    show ?thesis using that h by (cases b rule: dec_string_cases) auto
  qed
  have v4: "c \<in> hex_chars \<or> c = CHR ''.''" if "c \<in> set (v4_string v)" for v
    using that d by (auto simp: v4_string_form)
  have v6: "c \<in> hex_chars \<or> c = CHR '':''" if "c \<in> set (v6_string w)" for w
    using that groups_text_chars by (cases w rule: v6_string_cases) auto
  have "CHR ''f'' \<in> hex_chars" by (simp add: hex_chars_def)
  then have v6_text: "c \<in> hex_chars \<or> c = CHR '':'' \<or> c = CHR ''.''" if "c \<in> set (v6_text w)" for w
    using that v4 [of "ucast w"] v6 [of w] by (cases "mapped4 w") (auto simp: v6_text_def)
  show ?thesis
  proof (cases a)
    case (IP4 v)
    then show ?thesis using assms(3) v4 by auto
  next
    case (IP6 w z)
    then have "addr_string a = v6_text w" using assms(2) by (simp add: v6_text_def)
    then show ?thesis using assms(3) v6_text by simp
  qed (use assms(1) in simp)
qed

section \<open>Decimal numbers and plain text\<close>

lemma digit_char_of:
  assumes "d < 10"
  shows "is_digit (char_of (48 + d :: nat))" "digit_val (char_of (48 + d :: nat)) = int d"
    "char_of (48 + d :: nat) < CHR ''1'' \<longleftrightarrow> d = 0" "\<not> CHR ''9'' < char_of (48 + d :: nat)"
proof -
  have o: "(of_char (char_of (48 + d :: nat)) :: int) = 48 + int d"
  proof -
    have "(of_char (char_of (48 + d :: nat)) :: nat) = 48 + d" using assms by simp
    then have "int (of_char (char_of (48 + d :: nat))) = 48 + int d" by linarith
    then show ?thesis by (simp only: of_nat_of_char)
  qed
  show "is_digit (char_of (48 + d :: nat))" "digit_val (char_of (48 + d :: nat)) = int d"
    "char_of (48 + d :: nat) < CHR ''1'' \<longleftrightarrow> d = 0" "\<not> CHR ''9'' < char_of (48 + d :: nat)"
    using assms by (auto simp: is_digit_iff digit_val_def o char_le_iff not_le [symmetric])
qed

lemma nat_string_digits: "list_all is_digit (nat_string n) \<and> nat_string n \<noteq> []"
proof (induction n rule: nat_string.induct)
  case (1 n)
  have d: "n mod 10 < 10" by simp
  show ?case
    using 1 digit_char_of(1) [OF d] digit_char_of(1) [of n]
    by (subst (1 2) nat_string.simps) auto
qed

lemma nat_string_value: "dec_value (nat_string n) = int n"
proof (induction n rule: nat_string.induct)
  case (1 n)
  have d: "n mod 10 < 10" by simp
  show ?case
  proof (cases "n < 10")
    case True
    then show ?thesis
      by (subst nat_string.simps) (simp add: dec_value_def digit_char_of(2))
  next
    case False
    have "int (n div 10) * 10 + int (n mod 10) = int n" by presburger
    with False 1 digit_char_of(2) [OF d] show ?thesis
      by (subst nat_string.simps) (simp add: dec_value_def)
  qed
qed

lemma nat_string_head:
  "0 < n \<Longrightarrow> \<not> hd (nat_string n) < CHR ''1'' \<and> \<not> CHR ''9'' < hd (nat_string n)"
proof (induction n rule: nat_string.induct)
  case (1 n)
  then show ?case
    using nat_string_digits [of "n div 10"] digit_char_of(3,4) [of n]
    by (subst (1 2) nat_string.simps) (auto simp: hd_append)
qed

lemma parse_bits_text:
  assumes "0 \<le> b" "b \<le> mx"
  shows "parse_bits mx (nat_string (nat b)) = Some b"
proof -
  have "length (nat_string (nat b)) > 1 \<Longrightarrow> 0 < nat b"
    by (rule ccontr) (simp add: nat_string.simps)
  with nat_string_head [of "nat b"] nat_string_digits [of "nat b"] assms show ?thesis
    by (auto simp: parse_bits_def nat_string_value)
qed

lemma digit_plain: "is_digit c \<Longrightarrow> plain_char c \<and> c \<noteq> CHR ''/''"
  by (auto simp: is_digit_iff plain_char_def char_le_iff)

lemma addr_string_plain:
  assumes "is_valid a" "addr_zone a = []"
  shows "list_all plain_char (addr_string a)" "CHR ''/'' \<notin> set (addr_string a)"
proof -
  have p: "list_all plain_char (CHR '':'' # CHR ''.'' # ''0123456789abcdef'')" by code_simp
  show "list_all plain_char (addr_string a)"
    using addr_string_chars [OF assms] p by (auto simp: hex_chars_def list_all_iff)
  show "CHR ''/'' \<notin> set (addr_string a)"
    using addr_string_chars [OF assms, of "CHR ''/''"] by (auto simp: hex_chars_def)
qed

end
