(* ===== verification/Ip_Set.thy ===== *)
theory Ip_Set
  imports Netip
begin

text \<open>
  The interface of \<open>go4.org/netipx\<close>, a library the program uses for address sets: a builder
  that takes addresses and prefixes, the immutable set it makes, and its membership test. The
  library is a parameter of the model, a record of its operations; the locale \<open>ipset\<close> states
  the documented behaviour the program relies on. \<open>ref_ipset\<close> is an executable instance: the
  list of the builder's operations.
\<close>

datatype ipset_op = AddAddr addr | AddPrefix ipprefix

record 's ipset_api =
  ips_build :: "ipset_op list \<Rightarrow> 's \<times> error option"
  ips_contains :: "'s \<Rightarrow> addr \<Rightarrow> bool"

fun op_covers :: "ipset_op \<Rightarrow> addr \<Rightarrow> bool" where
  "op_covers (AddAddr b) a \<longleftrightarrow> a = b"
| "op_covers (AddPrefix p) a \<longleftrightarrow> pfx_contains p a"

text \<open>An operation the builder accepts: a valid address without zone, or a valid prefix.\<close>

fun op_valid :: "ipset_op \<Rightarrow> bool" where
  "op_valid (AddAddr b) \<longleftrightarrow> is_valid b \<and> addr_zone b = []"
| "op_valid (AddPrefix p) \<longleftrightarrow> 0 \<le> pfx_bits p"

locale ipset =
  fixes api :: "('s, 'm) ipset_api_scheme"
  assumes build_ok: "list_all op_valid ops \<Longrightarrow> snd (ips_build api ops) = None"
    and contains_build: "list_all op_valid ops \<Longrightarrow> addr_zone a = [] \<Longrightarrow>
      ips_contains api (fst (ips_build api ops)) a \<longleftrightarrow> (\<exists>op \<in> set ops. op_covers op a)"
    and contains_zone: "addr_zone a \<noteq> [] \<Longrightarrow> \<not> ips_contains api s a"
begin

lemma contains_addrs:
  assumes "\<forall>a \<in> set as. is_valid a \<and> addr_zone a = []"
  shows "ips_contains api (fst (ips_build api (map AddAddr as))) a \<longleftrightarrow> a \<in> set as"
proof (cases "addr_zone a = []")
  case True
  have "list_all op_valid (map AddAddr as)" using assms by (auto simp: list_all_iff)
  with True show ?thesis by (simp add: contains_build)
next
  case False
  with assms contains_zone show ?thesis by blast
qed

lemma contains_prefixes:
  assumes "\<forall>p \<in> set ps. 0 \<le> pfx_bits p"
  shows "ips_contains api (fst (ips_build api (map AddPrefix ps))) a \<longleftrightarrow>
    (\<exists>p \<in> set ps. pfx_contains p a)"
proof (cases "addr_zone a = []")
  case True
  have "list_all op_valid (map AddPrefix ps)" using assms by (auto simp: list_all_iff)
  with True show ?thesis by (simp add: contains_build)
next
  case False
  then show ?thesis by (simp add: contains_zone pfx_contains_def)
qed

lemma build_prefixes_ok:
  "\<forall>p \<in> set ps. 0 \<le> pfx_bits p \<Longrightarrow> snd (ips_build api (map AddPrefix ps)) = None"
  by (rule build_ok) (auto simp: list_all_iff)

end

definition ref_ipset :: "ipset_op list ipset_api" where
  "ref_ipset = \<lparr>
     ips_build = (\<lambda>ops. (filter op_valid ops,
       if list_all op_valid ops then None else Some (Environment ''invalid''))),
     ips_contains = (\<lambda>ops a. addr_zone a = [] \<and> list_ex (\<lambda>op. op_covers op a) ops)\<rparr>"

interpretation ref: ipset ref_ipset
  by unfold_locales (auto simp: ref_ipset_def list_all_iff list_ex_iff)

section \<open>Published views\<close>

text \<open>
  Two components publish an immutable set next to the data it is built from: the static targets
  and the runtime addresses. Both are clients of the same contract: a membership test of the
  published set that agrees with the data, in every state the updates lead to.
\<close>

locale published_view =
  fixes inv :: "'st \<Rightarrow> bool"
    and legal :: "'e \<Rightarrow> bool"
    and step :: "'e \<Rightarrow> 'st \<Rightarrow> 'st"
    and view :: "'st \<Rightarrow> addr \<Rightarrow> bool"
    and members :: "'st \<Rightarrow> addr \<Rightarrow> bool"
  assumes step_inv: "inv st \<Longrightarrow> legal e \<Longrightarrow> inv (step e st)"
    and view_members: "inv st \<Longrightarrow> view st a \<longleftrightarrow> members st a"
begin

lemma run_inv: "inv st \<Longrightarrow> list_all legal es \<Longrightarrow> inv (fold step es st)"
  by (induction es arbitrary: st) (auto intro: step_inv)

lemma run_view:
  "inv st \<Longrightarrow> list_all legal es \<Longrightarrow> view (fold step es st) a \<longleftrightarrow> members (fold step es st) a"
  by (rule view_members) (rule run_inv)

end

end
