(* ===== verification/Static_Targets.thy ===== *)
theory Static_Targets
  imports Netip_Roundtrip Ip_Set
begin

text \<open>
  The static targets of \<open>main.go\<close>: their syntax, the platform check, the target file, its reload
  while the responder runs, and the two readers. The package variables are the fields of
  \<open>static_state\<close>; \<open>targetSubnets\<close> is \<open>None\<close> while it is nil. Both writers and readers hold
  \<open>staticTargetMu\<close>, so each is one atomic step on this state.
\<close>

section \<open>Syntax of a target\<close>

definition parse_static_target :: "string \<Rightarrow> error + ipprefix" where
  "parse_static_target value =
     (let value = trim_space value in
        case parse_prefix value of
          Some prefix \<Rightarrow>
            if \<not> is6 (pfx_addr prefix)
            then Inl (Errorf ''static target %q is not an IPv6 address or prefix'' [value] None)
            else Inr (pfx_masked prefix)
        | None \<Rightarrow>
            (case parse_addr value of
               Some address \<Rightarrow>
                 if is6 address then Inr (prefix_from address 128)
                 else Inl (Errorf ''invalid static target %q: %w'' [value] (Some (Environment ''ParsePrefix'')))
             | None \<Rightarrow>
                 Inl (Errorf ''invalid static target %q: %w'' [value] (Some (Environment ''ParsePrefix'')))))"

text \<open>
  The targets the program works with: an IPv6 network without zone whose host bits are zero.
\<close>

definition static_target :: "ipprefix \<Rightarrow> bool" where
  "static_target p \<longleftrightarrow>
     (\<exists>w. pfx_addr p = IP6 w [] \<and> 0 \<le> pfx_bits p \<and> pfx_bits p \<le> 128 \<and>
        high_bits 128 (nat (pfx_bits p)) w = w)"

lemma dec_value_nonneg: "list_all is_digit s \<Longrightarrow> 0 \<le> dec_value s"
proof -
  have "0 \<le> n \<Longrightarrow> list_all is_digit s \<Longrightarrow> 0 \<le> foldl (\<lambda>n c. n * 10 + digit_val c) n s" for n
    by (induction s arbitrary: n) (auto simp: digit_val_nonneg)
  then show "list_all is_digit s \<Longrightarrow> 0 \<le> dec_value s" by (simp add: dec_value_def)
qed

lemma parse_bits_bounds: "parse_bits mx s = Some b \<Longrightarrow> 0 \<le> b \<and> b \<le> mx"
  by (auto simp: parse_bits_def dec_value_nonneg split: if_splits)

lemma parse_v4_is4: "parse_ipv4 s = Some a \<Longrightarrow> \<exists>v. a = IP4 v"
  by (auto simp: parse_ipv4_def)

lemma parse_v6_is6: "parse_ipv6 s = Some a \<Longrightarrow> is6 a"
  by (auto simp: parse_ipv6_def split: option.splits prod.splits if_splits)

lemma parse_addr_scan_valid: "parse_addr_scan s r = Some a \<Longrightarrow> is_valid a"
  by (induction s r rule: parse_addr_scan.induct)
    (auto split: if_splits dest: parse_v4_is4 parse_v6_is6)

lemma parse_addr_valid: "parse_addr s = Some a \<Longrightarrow> is_valid a"
  by (auto simp: parse_addr_def dest: parse_addr_scan_valid)

lemma without_zone_simps [simp]:
  "addr_zone (without_zone a) = []" "is_valid (without_zone a) = is_valid a"
  "bit_len (without_zone a) = bit_len a" "is6 (without_zone a) = is6 a"
  by (cases a; simp)+

lemma parse_prefix_wf:
  assumes "parse_prefix s = Some p"
  shows "is_valid (pfx_addr p) \<and> addr_zone (pfx_addr p) = [] \<and> 0 \<le> pfx_bits p \<and>
    pfx_bits p \<le> int (bit_len (pfx_addr p))"
proof -
  from assms obtain ip bits a b where a: "parse_addr ip = Some a"
    and b: "parse_bits (if is6 a then 128 else 32) bits = Some b" and p: "p = prefix_from a b"
    by (auto simp: parse_prefix_def split: option.splits prod.splits if_splits)
  have "is_valid a" using a by (rule parse_addr_valid)
  moreover from this have "(if is6 a then 128 else 32) = int (bit_len a)"
    by (cases a) auto
  ultimately show ?thesis
    using parse_bits_bounds [OF b] by (simp add: p prefix_from_def)
qed

lemma masked_static_target:
  assumes "is6 (pfx_addr p)" "addr_zone (pfx_addr p) = []" "0 \<le> pfx_bits p" "pfx_bits p \<le> 128"
  shows "static_target (pfx_masked p)"
  using assms by (cases "pfx_addr p")
    (auto simp: static_target_def pfx_masked_def prefix_from_def)

lemma host_static_target: "is6 a \<Longrightarrow> static_target (prefix_from a 128)"
  by (cases a) (auto simp: static_target_def prefix_from_def)

lemma parse_static_target_wf: "parse_static_target s = Inr p \<Longrightarrow> static_target p"
proof (cases "parse_prefix (trim_space s)")
  case None
  assume "parse_static_target s = Inr p"
  with None show ?thesis
    by (auto simp: parse_static_target_def Let_def host_static_target split: option.splits if_splits)
next
  case (Some q)
  assume "parse_static_target s = Inr p"
  with Some have "is6 (pfx_addr q)" and p: "p = pfx_masked q"
    by (auto simp: parse_static_target_def Let_def split: if_splits)
  moreover from this have "bit_len (pfx_addr q) = 128" by (simp add: is6_bit_len)
  ultimately show ?thesis
    using parse_prefix_wf [OF Some] by (auto simp: p intro!: masked_static_target)
qed

section \<open>The platform check\<close>

definition bsd_platforms :: "string list" where
  "bsd_platforms = [''darwin'', ''dragonfly'', ''freebsd'', ''netbsd'', ''openbsd'']"

definition validate_static_targets_for_platform ::
  "string \<Rightarrow> ipprefix list \<Rightarrow> error option"
where
  "validate_static_targets_for_platform goos prefixes =
     (if goos \<in> set bsd_platforms \<and> list_ex (\<lambda>p. pfx_bits p \<noteq> 128) prefixes
      then Some (Errorf ''macOS and BSD hosts support static NDP proxy targets only as /128 addresses; use -N or -C for dynamic runtime addresses'' [] None)
      else None)"

section \<open>The target file\<close>

text \<open>
  What \<open>os.Open\<close> and reading the file give: the file does not exist, it cannot be opened, or its
  bytes, with an error after them when a read fails.
\<close>

datatype open_result =
    NotExist string
  | OpenError string
  | Opened string "string option"

text \<open>
  \<open>bufio.Scanner\<close>: the lines of the data without their line feeds, the last one only when it is
  not empty; a line of \<open>MaxScanTokenSize\<close> bytes or more stops the scan with an error.
\<close>

definition max_scan_token_size :: int where
  "max_scan_token_size = 65536"

definition raw_lines :: "string \<Rightarrow> string list" where
  "raw_lines data =
     (let ls = split_on (CHR 0x0A) data in if last ls = [] then butlast ls else ls)"

definition drop_cr :: "string \<Rightarrow> string" where
  "drop_cr l = (if l \<noteq> [] \<and> last l = CHR 0x0D then butlast l else l)"

fun scan_targets ::
  "string \<Rightarrow> string option \<Rightarrow> nat \<Rightarrow> ipprefix list \<Rightarrow> string list \<Rightarrow> error + ipprefix list"
where
  "scan_targets path rerr line prefixes [] =
     (case rerr of
        Some m \<Rightarrow> Inl (Errorf ''read static target file %q: %w'' [path] (Some (Environment m)))
      | None \<Rightarrow> Inr prefixes)"
| "scan_targets path rerr line prefixes (l # ls) =
     (if max_scan_token_size \<le> int (length l)
      then Inl (Errorf ''read static target file %q: %w'' [path] (Some (ErrorsNew ''token too long'')))
      else
        let value = trim_space (drop_cr l) in
        if value = [] \<or> has_prefix value ''#'' then scan_targets path rerr (Suc line) prefixes ls
        else (case parse_static_target value of
            Inl e \<Rightarrow>
              Inl (Errorf ''invalid static target file %q line %d: %w'' [path, nat_string line] (Some e))
          | Inr prefix \<Rightarrow> scan_targets path rerr (Suc line) (prefixes @ [prefix]) ls))"

definition err_static_target_file_missing :: error where
  "err_static_target_file_missing = ErrorsNew ''static target file does not exist''"

definition read_static_target_file_internal ::
  "(string \<Rightarrow> open_result) \<Rightarrow> string \<Rightarrow> bool \<Rightarrow> error + ipprefix list"
where
  "read_static_target_file_internal open path allow_missing =
     (case open path of
        NotExist _ \<Rightarrow>
          if allow_missing then Inl err_static_target_file_missing
          else Inl (Errorf ''%w: %q'' [path] (Some err_static_target_file_missing))
      | OpenError m \<Rightarrow>
          Inl (Errorf ''open static target file %q: %w'' [path] (Some (Environment m)))
      | Opened data rerr \<Rightarrow> scan_targets path rerr 1 [] (raw_lines data))"

definition read_static_target_file :: "(string \<Rightarrow> open_result) \<Rightarrow> string \<Rightarrow> error + ipprefix list" where
  "read_static_target_file open path = read_static_target_file_internal open path False"

definition read_static_target_file_for_reload ::
  "(string \<Rightarrow> open_result) \<Rightarrow> string \<Rightarrow> error + ipprefix list"
where
  "read_static_target_file_for_reload open path = read_static_target_file_internal open path True"

lemmas read_defs = read_static_target_file_def read_static_target_file_for_reload_def
  read_static_target_file_internal_def

text \<open>
  What a scan returns, without the loop: a line is skipped when it is blank or a comment, and the
  targets of the other lines are returned in their order.
\<close>

definition line_value :: "string \<Rightarrow> string" where
  "line_value l = trim_space (drop_cr l)"

definition target_line :: "string \<Rightarrow> bool" where
  "target_line l \<longleftrightarrow> line_value l \<noteq> [] \<and> \<not> has_prefix (line_value l) ''#''"

definition line_ok :: "string \<Rightarrow> bool" where
  "line_ok l \<longleftrightarrow> int (length l) < max_scan_token_size \<and>
     (target_line l \<longrightarrow> is_ok (parse_static_target (line_value l)))"

definition line_target :: "string \<Rightarrow> ipprefix" where
  "line_target l = projr (parse_static_target (line_value l))"

lemma scan_targets_spec:
  "scan_targets path rerr n acc ls = Inr ps \<longleftrightarrow>
   rerr = None \<and> list_all line_ok ls \<and> ps = acc @ map line_target (filter target_line ls)"
proof (induction path rerr n acc ls rule: scan_targets.induct)
  case (1 path rerr n acc)
  then show ?case by (auto split: option.splits)
next
  case (2 path rerr n acc l ls)
  show ?case
  proof (cases "max_scan_token_size \<le> int (length l)")
    case True
    then show ?thesis by (simp add: line_ok_def)
  next
    case short: False
    show ?thesis
    proof (cases "target_line l")
      case False
      with short 2 show ?thesis
        by (auto simp: line_ok_def target_line_def line_value_def Let_def)
    next
      case True
      with short 2 show ?thesis
        by (cases "parse_static_target (line_value l)")
          (auto simp: line_ok_def target_line_def line_value_def line_target_def Let_def is_ok_def)
    qed
  qed
qed

lemma scan_targets_static:
  assumes "scan_targets path rerr n [] ls = Inr ps" "p \<in> set ps"
  shows "static_target p"
proof -
  from assms obtain l where "line_ok l" "target_line l" "p = line_target l"
    by (auto simp: scan_targets_spec list_all_iff)
  then show ?thesis
    by (auto simp: line_ok_def line_target_def is_ok_def split: sum.splits
        intro: parse_static_target_wf)
qed

lemma read_internal_static:
  "read_static_target_file_internal open path am = Inr ps \<Longrightarrow> p \<in> set ps \<Longrightarrow> static_target p"
  by (auto simp: read_static_target_file_internal_def split: open_result.splits if_splits
      intro: scan_targets_static)

section \<open>The live target set\<close>

record 's static_state =
  target_subnets :: "'s option"
  static_targets :: "ipprefix list"
  static_cli_targets :: "ipprefix list"
  static_target_file :: string

definition build_target_set ::
  "('s, 'm) ipset_api_scheme \<Rightarrow> ipprefix list \<Rightarrow> 's \<times> error option"
where
  "build_target_set api prefixes = ips_build api (map AddPrefix prefixes)"

definition reload_static_target_file ::
  "('s, 'm) ipset_api_scheme \<Rightarrow> string \<Rightarrow> (string \<Rightarrow> open_result) \<Rightarrow>
   ('s, 'r) static_state_scheme \<Rightarrow> ('s, 'r) static_state_scheme"
where
  "reload_static_target_file api goos open st =
     (if static_target_file st = [] then st
      else case read_static_target_file_for_reload open (static_target_file st) of
        Inl e \<Rightarrow> st
      | Inr prefixes \<Rightarrow>
          let merged = static_cli_targets st @ prefixes in
          (case validate_static_targets_for_platform goos merged of
             Some e \<Rightarrow> st
           | None \<Rightarrow>
               (case build_target_set api merged of
                  (ts, Some e) \<Rightarrow> st
                | (ts, None) \<Rightarrow>
                    st\<lparr>target_subnets := Some ts, static_targets := merged\<rparr>)))"

definition current_static_target_set :: "('s, 'r) static_state_scheme \<Rightarrow> 's option" where
  "current_static_target_set st = target_subnets st"

definition current_static_targets :: "('s, 'r) static_state_scheme \<Rightarrow> ipprefix list" where
  "current_static_targets st = static_targets st"

text \<open>
  The invariant of the target store: all prefixes are well-formed, and the published set is the
  one built from the published list. The initial state of the process has no set at all.
\<close>

definition static_inv :: "('s, 'm) ipset_api_scheme \<Rightarrow> ('s, 'r) static_state_scheme \<Rightarrow> bool" where
  "static_inv api st \<longleftrightarrow>
     (\<forall>p \<in> set (static_targets st). static_target p) \<and>
     (\<forall>p \<in> set (static_cli_targets st). static_target p) \<and>
     target_subnets st = Some (fst (build_target_set api (static_targets st)))"

text \<open>The state a reload leaves, case by case.\<close>

definition reload_accepts ::
  "('s, 'm) ipset_api_scheme \<Rightarrow> string \<Rightarrow> (string \<Rightarrow> open_result) \<Rightarrow>
   ('s, 'r) static_state_scheme \<Rightarrow> ipprefix list \<Rightarrow> bool"
where
  "reload_accepts api goos open st ps \<longleftrightarrow>
     static_target_file st \<noteq> [] \<and>
     read_static_target_file_for_reload open (static_target_file st) = Inr ps \<and>
     validate_static_targets_for_platform goos (static_cli_targets st @ ps) = None \<and>
     snd (build_target_set api (static_cli_targets st @ ps)) = None"

lemma reload_cases:
  "(reload_static_target_file api goos open st = st \<and> (\<forall>ps. \<not> reload_accepts api goos open st ps)) \<or>
   (\<exists>ps. reload_accepts api goos open st ps \<and>
     reload_static_target_file api goos open st =
       st\<lparr>target_subnets := Some (fst (build_target_set api (static_cli_targets st @ ps))),
          static_targets := static_cli_targets st @ ps\<rparr>)"
  by (auto simp: reload_static_target_file_def reload_accepts_def Let_def
      split: sum.splits option.splits prod.splits)

lemma reload_static_inv:
  assumes "static_inv api st"
  shows "static_inv api (reload_static_target_file api goos open st)"
  using reload_cases [of api goos "open" st]
proof
  assume "\<exists>ps. reload_accepts api goos open st ps \<and>
     reload_static_target_file api goos open st =
       st\<lparr>target_subnets := Some (fst (build_target_set api (static_cli_targets st @ ps))),
          static_targets := static_cli_targets st @ ps\<rparr>"
  then show ?thesis
    using assms by (auto simp: static_inv_def reload_accepts_def read_defs
        dest: read_internal_static [unfolded read_defs])
qed (use assms in simp)

lemma static_target_bits: "static_target p \<Longrightarrow> 0 \<le> pfx_bits p"
  by (auto simp: static_target_def)

context ipset
begin

lemma static_set_members:
  assumes "static_inv api st"
  shows "\<exists>s. current_static_target_set st = Some s \<and>
    (\<forall>a. ips_contains api s a \<longleftrightarrow> (\<exists>p \<in> set (current_static_targets st). pfx_contains p a))"
proof -
  have "\<forall>p \<in> set (static_targets st). 0 \<le> pfx_bits p"
    using assms by (auto simp: static_inv_def static_target_bits)
  with assms show ?thesis
    by (auto simp: static_inv_def current_static_target_set_def current_static_targets_def
        build_target_set_def contains_prefixes)
qed

lemma build_static_ok:
  "\<forall>p \<in> set ps. static_target p \<Longrightarrow> snd (build_target_set api ps) = None"
  by (auto simp: build_target_set_def static_target_bits intro: build_prefixes_ok)

end

text \<open>
  A prefix of a static target contains an address when their first bits agree; a host target
  contains its own address only.
\<close>

lemma static_target_contains:
  "static_target p \<Longrightarrow> pfx_contains p a \<Longrightarrow> is6 a \<and> addr_zone a = []"
  by (cases a) (auto simp: static_target_def pfx_contains_def split: if_splits)

lemma static_host_contains:
  assumes "static_target p" "pfx_bits p = 128"
  shows "pfx_contains p a \<longleftrightarrow> a = pfx_addr p"
  using assms by (cases a) (auto simp: static_target_def pfx_contains_def)

text \<open>The store as a published view; an update is a reload with what it finds.\<close>

definition static_view :: "('s, 'm) ipset_api_scheme \<Rightarrow> ('s, 'r) static_state_scheme \<Rightarrow> addr \<Rightarrow> bool" where
  "static_view api st a =
     (case current_static_target_set st of None \<Rightarrow> False | Some s \<Rightarrow> ips_contains api s a)"

definition static_members :: "('s, 'r) static_state_scheme \<Rightarrow> addr \<Rightarrow> bool" where
  "static_members st a = list_ex (\<lambda>p. pfx_contains p a) (current_static_targets st)"

definition reload_step ::
  "('s, 'm) ipset_api_scheme \<Rightarrow> string \<times> (string \<Rightarrow> open_result) \<Rightarrow>
   ('s, 'r) static_state_scheme \<Rightarrow> ('s, 'r) static_state_scheme"
where
  "reload_step api = (\<lambda>(goos, open) st. reload_static_target_file api goos open st)"

sublocale ipset \<subseteq> static: published_view "static_inv api" "\<lambda>_. True" "reload_step api"
  "static_view api" static_members
proof unfold_locales
  fix st :: "('s, 'x) static_state_scheme" and a
  assume "static_inv api st"
  from static_set_members [OF this] show "static_view api st a \<longleftrightarrow> static_members st a"
    by (auto simp: static_view_def static_members_def list_ex_iff)
qed (auto simp: reload_step_def split: prod.splits intro: reload_static_inv)

text \<open>The form \<open>Prefix.String\<close> gives a target.\<close>

definition target_text :: "ipprefix \<Rightarrow> string" where
  "target_text p = addr_string (pfx_addr p) @ ''/'' @ nat_string (nat (pfx_bits p))"

lemma parse_target_text:
  assumes "static_target p"
  shows "parse_static_target (target_text p) = Inr p"
proof -
  obtain w where p: "pfx_addr p = IP6 w []" and b: "0 \<le> pfx_bits p" "pfx_bits p \<le> 128"
    and masked: "high_bits 128 (nat (pfx_bits p)) w = w"
    using assms by (auto simp: static_target_def)
  let ?t = "target_text p"
  have valid: "is_valid (pfx_addr p)" "addr_zone (pfx_addr p) = []" by (simp_all add: p)
  have slash: "plain_char (CHR ''/'')" by (simp add: plain_char_def char_le_iff)
  have "trim_space ?t = ?t"
    using addr_string_plain(1) [OF valid] nat_string_digits [of "nat (pfx_bits p)"]
    by (intro trim_plain) (auto simp: target_text_def list_all_iff slash digit_plain)
  moreover have no_slash: "CHR ''/'' \<notin> set (rev (nat_string (nat (pfx_bits p))))"
    using nat_string_digits [of "nat (pfx_bits p)"] digit_plain by (auto simp: list_all_iff)
  moreover have "cut_last CHR ''/'' ?t = Some (addr_string (pfx_addr p), nat_string (nat (pfx_bits p)))"
    using cut_append_sep [OF no_slash, of "rev (addr_string (pfx_addr p))"]
    by (simp add: cut_last_def target_text_def)
  moreover have "parse_addr (addr_string (pfx_addr p)) = Some (IP6 w [])"
    using parse_addr_text [OF valid(1)] p by simp
  ultimately have "parse_prefix (trim_space ?t) = Some (prefix_from (IP6 w []) (pfx_bits p))"
    using parse_bits_text [OF b] by (simp add: parse_prefix_def)
  moreover have "prefix_from (IP6 w []) (pfx_bits p) = p"
    using p b by (cases p) (simp add: prefix_from_def)
  moreover have "pfx_masked p = p"
    using p b masked by (cases p) (simp add: pfx_masked_def prefix_from_def)
  ultimately show ?thesis
    by (simp add: parse_static_target_def Let_def p \<open>trim_space ?t = ?t\<close>)
qed

section \<open>Targets and their texts\<close>

text \<open>A prefix written with a zone is refused as a prefix but accepted as an address whose zone ends in
  the length, so it is taken for a single host.\<close>

lemma zoned_prefix_becomes_host:
  "parse_static_target ''2001:db8::1%eth0/64'' =
     Inr \<lparr>pfx_addr = IP6 0x20010db8000000000000000000000001 [], pfx_bits = 128\<rparr>"
  by code_simp

text \<open>
  What a text asks for, without the parser of the program: an address, with or without a zone, alone,
  or an address without zone and a length of at most 128, with blanks around.
\<close>

definition text_target :: "string \<Rightarrow> 128 word \<Rightarrow> nat \<Rightarrow> bool" where
  "text_target text w n \<longleftrightarrow>
     (\<exists>zone. parse_addr (trim_space text) = Some (IP6 w zone) \<and> n = 128) \<or>
     (\<exists>t digits. trim_space text = t @ CHR ''/'' # digits \<and> parse_addr t = Some (IP6 w []) \<and>
        digits \<noteq> [] \<and> list_all is_digit digits \<and> n = nat (dec_value digits) \<and> n \<le> 128)"

lemma parsed_prefix_text:
  assumes "parse_prefix s = Some p" "is6 (pfx_addr p)"
  obtains t digits w where "s = t @ CHR ''/'' # digits" "parse_addr t = Some (IP6 w [])" "digits \<noteq> []"
    "list_all is_digit digits" "dec_value digits \<le> 128" "p = prefix_from (IP6 w []) (dec_value digits)"
proof -
  from assms(1) obtain t digits a b where t: "cut_last CHR ''/'' s = Some (t, digits)" "parse_addr t = Some a"
    "\<not> (is6 a \<and> addr_zone a \<noteq> [])" "parse_bits (if is6 a then 128 else 32) digits = Some b" "p = prefix_from a b"
    by (auto simp: parse_prefix_def split: option.splits prod.splits if_splits)
  from t(1) obtain x y where "cut CHR ''/'' (rev s) = Some (x, y)" "t = rev y" "digits = rev x"
    by (auto simp: cut_last_def)
  then have s: "s = t @ CHR ''/'' # digits"
    using cut_Some [of "CHR ''/''" "rev s" x y] by (simp add: rev_swap)
  have "is6 a" using assms(2) t(5) by (simp add: prefix_from_def)
  then obtain w where "a = IP6 w []" using t(3) by (cases a) auto
  with t s that show ?thesis by (auto simp: parse_bits_def split: if_splits)
qed

lemma parsed_text:
  assumes "parse_static_target text = Inr p"
  obtains w n where "text_target text w n" "pfx_addr p = IP6 (high_bits 128 n w) []" "pfx_bits p = int n" "n \<le> 128"
proof (cases "parse_prefix (trim_space text)")
  case None
  with assms obtain a where a: "parse_addr (trim_space text) = Some a" "is6 a" "p = prefix_from a 128"
    by (auto simp: parse_static_target_def Let_def split: option.splits if_splits)
  then obtain w zone where "a = IP6 w zone" by (cases a) auto
  with a have "text_target text w 128" "pfx_addr p = IP6 (high_bits 128 128 w) []" "pfx_bits p = int 128"
    by (auto simp: text_target_def prefix_from_def)
  then show ?thesis using that [of w 128] by blast
next
  case (Some q)
  with assms have q: "is6 (pfx_addr q)" "p = pfx_masked q"
    by (auto simp: parse_static_target_def Let_def split: if_splits)
  obtain t digits w where t: "trim_space text = t @ CHR ''/'' # digits" "parse_addr t = Some (IP6 w [])"
    "digits \<noteq> []" "list_all is_digit digits" "dec_value digits \<le> 128" "q = prefix_from (IP6 w []) (dec_value digits)"
    using parsed_prefix_text [OF Some q(1)] by blast
  have "text_target text w (nat (dec_value digits))"
    unfolding text_target_def
    by (intro disjI2 exI [of _ t] exI [of _ digits]) (use t dec_value_nonneg [OF t(4)] in simp)
  moreover have "pfx_addr p = IP6 (high_bits 128 (nat (dec_value digits)) w) []" "pfx_bits p = int (nat (dec_value digits))"
    "nat (dec_value digits) \<le> 128"
    using t(5) dec_value_nonneg [OF t(4)] by (simp_all add: q(2) t(6) pfx_masked_def prefix_from_def)
  ultimately show ?thesis using that by blast
qed

text \<open>The addresses an accepted text covers are those that agree with it in its first bits.\<close>

lemma parsed_text_covers:
  assumes "parse_static_target text = Inr p" "pfx_contains p a"
  obtains w n u where "text_target text w n" "pfx_bits p = int n" "a = IP6 u []"
    "drop_bit (128 - n) u = drop_bit (128 - n) w"
proof -
  obtain w n where t: "text_target text w n" "pfx_addr p = IP6 (high_bits 128 n w) []" "pfx_bits p = int n" "n \<le> 128"
    using parsed_text [OF assms(1)] .
  from assms(2) t obtain u where u: "a = IP6 u []" "high_bits 128 n (high_bits 128 n w) = high_bits 128 n u"
    by (cases a) (auto simp: pfx_contains_def split: if_splits)
  then have "drop_bit (128 - n) u = drop_bit (128 - n) w"
    using high_bits_eq_iff [of 128 n u w] t(4) by simp
  with t(1,3) u(1) that show ?thesis by blast
qed

lemma read_internal_accepts:
  "read_static_target_file_internal open path am = Inr ps \<longleftrightarrow>
   (\<exists>data. open path = Opened data None \<and> list_all line_ok (raw_lines data) \<and>
      ps = map line_target (filter target_line (raw_lines data)))"
  by (auto simp: read_static_target_file_internal_def scan_targets_spec split: open_result.splits)

text \<open>
  The targets come from the command line and from a content the file had when it was read;
  \<open>files\<close> is what the file system gave at the reads.
\<close>

definition targets_from ::
  "ipprefix list \<Rightarrow> string \<Rightarrow> (string \<Rightarrow> open_result) set \<Rightarrow> ('s, 'r) static_state_scheme \<Rightarrow> bool"
where
  "targets_from cli path files st \<longleftrightarrow>
     static_cli_targets st = cli \<and> static_target_file st = path \<and>
     (\<exists>ps. static_targets st = cli @ ps \<and>
        (ps = [] \<or> path \<noteq> [] \<and> (\<exists>open \<in> files. \<exists>am. read_static_target_file_internal open path am = Inr ps)))"

lemma reload_targets_from:
  assumes "open \<in> files" "targets_from cli path files st"
  shows "targets_from cli path files (reload_static_target_file api goos open st)"
  using reload_cases [of api goos "open" st]
proof
  assume "\<exists>ps. reload_accepts api goos open st ps \<and>
     reload_static_target_file api goos open st =
       st\<lparr>target_subnets := Some (fst (build_target_set api (static_cli_targets st @ ps))),
          static_targets := static_cli_targets st @ ps\<rparr>"
  with assms show ?thesis
    by (auto simp: targets_from_def reload_accepts_def read_static_target_file_for_reload_def)
qed (use assms(2) in simp)

section \<open>Properties\<close>

text \<open>C38: type and form of a target. Whatever the option or the line of the file is, an accepted
  target is an IPv6 network without zone whose length is between 0 and 128 and whose host bits are
  zero; written out, it is read back as itself.\<close>

theorem static_target_round_trip:
  "case parse_static_target s of
     Inl e \<Rightarrow> True
   | Inr p \<Rightarrow> static_target p \<and> parse_static_target (target_text p) = Inr p"
  by (auto split: sum.split dest: parse_static_target_wf intro: parse_target_text)

text \<open>What an accepted target covers. A network covers the addresses without zone that agree
  with it in its first bits, a plain address covers itself and nothing else, whether it was written
  with the length 128 or without a length.\<close>

lemma static_target_coverage:
  assumes "parse_static_target s = Inr p"
  shows "pfx_contains p a \<longleftrightarrow>
    (\<exists>w u. pfx_addr p = IP6 w [] \<and> a = IP6 u [] \<and>
       drop_bit (128 - nat (pfx_bits p)) u = drop_bit (128 - nat (pfx_bits p)) w)"
proof -
  obtain w where p: "pfx_addr p = IP6 w []" "0 \<le> pfx_bits p" "pfx_bits p \<le> 128"
    using parse_static_target_wf [OF assms] by (auto simp: static_target_def)
  with p show ?thesis
    by (cases a) (auto simp: pfx_contains_def high_bits_eq_iff nat_le_iff)
qed

text \<open>C39: reading the target file. The file is accepted if and only if it can be opened and read to
  its end and every line is shorter than 65536 bytes and blank, a comment or a target; the result
  is then the targets in the order of the lines, and a missing file is the error the reload
  recognizes.\<close>

theorem target_file_accepted:
  "read_static_target_file_for_reload open path = Inr ps \<longleftrightarrow>
   (\<exists>data. open path = Opened data None \<and> list_all line_ok (raw_lines data) \<and>
      ps = map line_target (filter target_line (raw_lines data)))"
  unfolding read_static_target_file_for_reload_def by (rule read_internal_accepts)

text \<open>The platform check lets a list of targets pass if and only if the platform is not one of
  the BSD family or every target is a single address, and a pass means that on those platforms each
  target covers exactly its own address.\<close>

lemma platform_check:
  assumes "\<forall>p \<in> set ps. static_target p"
  shows "validate_static_targets_for_platform goos ps = None \<longleftrightarrow>
    goos \<notin> set bsd_platforms \<or> (\<forall>p \<in> set ps. \<forall>a. pfx_contains p a \<longleftrightarrow> a = pfx_addr p)"
proof -
  have host: "(\<forall>a. pfx_contains p a \<longleftrightarrow> a = pfx_addr p) \<longleftrightarrow> pfx_bits p = 128" if "p \<in> set ps" for p
  proof
    assume all: "\<forall>a. pfx_contains p a \<longleftrightarrow> a = pfx_addr p"
    obtain w where p: "pfx_addr p = IP6 w []" "0 \<le> pfx_bits p" "pfx_bits p \<le> 128"
      using assms \<open>p \<in> set ps\<close> by (auto simp: static_target_def)
    show "pfx_bits p = 128"
    proof (rule ccontr)
      assume "pfx_bits p \<noteq> 128"
      then have k: "0 < 128 - nat (pfx_bits p)" using p by simp
      have "drop_bit (128 - nat (pfx_bits p)) (w XOR 1) = drop_bit (128 - nat (pfx_bits p)) w"
        using k by (intro bit_word_eqI) (simp add: bit_simps)
      then have "pfx_contains p (IP6 (w XOR 1) [])"
        using p by (simp add: pfx_contains_def high_bits_eq_iff nat_le_iff)
      with all p have "w XOR 1 = w" by simp
      then have "bit (w XOR 1) 0 = bit w 0" by simp
      then show False by (simp add: bit_simps)
    qed
  qed (use assms that static_host_contains in blast)
  then have "(\<forall>p \<in> set ps. \<forall>a. pfx_contains p a \<longleftrightarrow> a = pfx_addr p) \<longleftrightarrow>
      (\<forall>p \<in> set ps. pfx_bits p = 128)" by blast
  then show ?thesis
    by (auto simp: validate_static_targets_for_platform_def list_ex_iff)
qed


text \<open>What a reload would publish, if it is accepted: the targets of the command line, then those
  of the file.\<close>

definition reload_offer ::
  "('s, 'r) static_state_scheme \<Rightarrow> string \<times> (string \<Rightarrow> open_result) \<Rightarrow> ipprefix list option"
where
  "reload_offer st = (\<lambda>(goos, open).
     if static_target_file st = [] then None
     else case read_static_target_file_for_reload open (static_target_file st) of
       Inl e \<Rightarrow> None
     | Inr ps \<Rightarrow>
         if validate_static_targets_for_platform goos (static_cli_targets st @ ps) = None
         then Some (static_cli_targets st @ ps) else None)"

context ipset
begin

lemma reload_offer_step:
  assumes "static_inv api st"
  shows "static_targets (reload_step api e st) =
      (case reload_offer st e of None \<Rightarrow> static_targets st | Some ts \<Rightarrow> ts)"
    "reload_offer (reload_step api e st) = reload_offer st"
proof -
  obtain goos "open" where e: "e = (goos, open)" by (cases e)
  have built: "snd (build_target_set api (static_cli_targets st @ ps)) = None"
    if "read_static_target_file_for_reload open (static_target_file st) = Inr ps" for ps
    using that assms read_internal_static [of "open" "static_target_file st" True ps]
    by (intro build_static_ok) (auto simp: static_inv_def read_static_target_file_for_reload_def)
  show "static_targets (reload_step api e st) =
      (case reload_offer st e of None \<Rightarrow> static_targets st | Some ts \<Rightarrow> ts)"
    using built
    by (auto simp: e reload_step_def reload_static_target_file_def reload_offer_def Let_def
        split: sum.splits option.splits prod.splits)
  have "static_target_file (reload_step api e st) = static_target_file st"
    "static_cli_targets (reload_step api e st) = static_cli_targets st"
    using reload_cases [of api goos "open" st]
    by (elim disjE exE conjE; simp add: e reload_step_def)+
  then show "reload_offer (reload_step api e st) = reload_offer st"
    by (simp only: reload_offer_def)
qed

lemma reload_sequence:
  assumes "static_inv api st"
  shows "static_targets (fold (reload_step api) es st) =
    last (static_targets st # List.map_filter (reload_offer st) es)"
  using assms
proof (induction es arbitrary: st)
  case Nil
  then show ?case by (simp add: List.map_filter_simps)
next
  case (Cons e es)
  have "static_inv api (reload_step api e st)" using Cons(2) by (simp add: static.step_inv)
  from Cons.IH [OF this] show ?case
    by (simp add: reload_offer_step [OF Cons(2)] List.map_filter_simps split: option.split)
qed

lemma reload_view:
  "static_inv api st \<Longrightarrow> static_view api (fold (reload_step api) es st) a \<longleftrightarrow>
     (\<exists>p \<in> set (static_targets (fold (reload_step api) es st)). pfx_contains p a)"
  by (subst static.run_view) (simp_all add: list_all_iff static_members_def current_static_targets_def list_ex_iff)

end

text \<open>C10: reloading. After any sequence of reloads the published list is the one the last accepted
  file gave, after the command line's targets; a file that is missing, unreadable, malformed or
  refused for the platform changes nothing; and the published set answers for exactly the addresses
  the published list covers.\<close>

theorem reload_keeps_last_accepted:
  assumes "ipset api" "static_inv api st" "st' = fold (reload_step api) es st"
  shows "static_targets st' = last (static_targets st # List.map_filter (reload_offer st) es) \<and>
    (static_view api st' a \<longleftrightarrow> (\<exists>p \<in> set (static_targets st'). pfx_contains p a))"
  using ipset.reload_sequence [OF assms(1,2)] ipset.reload_view [OF assms(1,2)]
  by (simp add: assms(3))

definition sample_store :: "ipset_op list static_state" where
  "sample_store = \<lparr>target_subnets = Some (fst (build_target_set ref_ipset [])), static_targets = [],
    static_cli_targets = [], static_target_file = ''/t''\<rparr>"

definition sample_reloads :: "(string \<times> (string \<Rightarrow> open_result)) list" where
  "sample_reloads = [(''linux'', \<lambda>_. Opened ''::7'' None), (''linux'', \<lambda>_. NotExist ''gone''),
     (''linux'', \<lambda>_. Opened ''bad'' None)]"

theorem reload_keeps_last_accepted_witness:
  "static_targets (fold (reload_step ref_ipset) sample_reloads sample_store) =
     [\<lparr>pfx_addr = IP6 7 [], pfx_bits = 128\<rparr>] \<and>
   static_view ref_ipset (fold (reload_step ref_ipset) sample_reloads sample_store) (IP6 7 [])"
proof -
  let ?st' = "fold (reload_step ref_ipset) sample_reloads sample_store"
  have inv: "static_inv ref_ipset sample_store" by (simp add: static_inv_def sample_store_def)
  have "last (static_targets sample_store # List.map_filter (reload_offer sample_store) sample_reloads) =
      [\<lparr>pfx_addr = IP6 7 [], pfx_bits = 128\<rparr>]"
    by code_simp
  then have ts: "static_targets ?st' = [\<lparr>pfx_addr = IP6 7 [], pfx_bits = 128\<rparr>]"
    using reload_keeps_last_accepted [OF ref.ipset_axioms inv refl] by metis
  moreover have "static_view ref_ipset ?st' (IP6 7 [])"
    using reload_keeps_last_accepted [OF ref.ipset_axioms inv refl, of sample_reloads "IP6 7 []"] ts
    by (simp add: pfx_contains_def)
  ultimately show ?thesis by blast
qed

end
