(* ===== verification/Ip_Policy.thy ===== *)
theory Ip_Policy
  imports Netip
begin

text \<open>
  \<open>ipv6_policy.go\<close>: which runtime addresses may be announced on the uplink. The lemmas express
  the test by prefixes: everything outside the unspecified and loopback addresses, multicast
  (\<open>ff00::/8\<close>), link-local (\<open>fe80::/10\<close>) and unique-local (\<open>fc00::/7\<close>) space.
\<close>

definition runtime_address_needs_announcement :: "addr \<Rightarrow> bool" where
  "runtime_address_needs_announcement ip \<longleftrightarrow>
     is_valid ip \<and> is6 ip \<and> is_global_unicast ip \<and> \<not> is_private ip \<and> \<not> is_link_local_unicast ip"

abbreviation host6 :: "128 word \<Rightarrow> addr" where
  "host6 w \<equiv> IP6 w []"

definition net6 :: "128 word \<Rightarrow> int \<Rightarrow> ipprefix" where
  "net6 w n = prefix_from (IP6 w []) n"

definition ula_net :: ipprefix where
  "ula_net = net6 0xfc000000000000000000000000000000 7"

definition link_local_net :: ipprefix where
  "link_local_net = net6 0xfe800000000000000000000000000000 10"

definition multicast_net :: ipprefix where
  "multicast_net = net6 0xff000000000000000000000000000000 8"

lemma net6_contains:
  assumes "0 \<le> n" "n \<le> 128"
  shows "pfx_contains (net6 u n) (IP6 w []) \<longleftrightarrow>
    drop_bit (128 - nat n) w = drop_bit (128 - nat n) u"
  using assms
  by (auto simp: pfx_contains_def net6_def prefix_from_def high_bits_eq_iff nat_le_iff)

lemma net6_contains_zone: "pfx_contains (net6 u n) (IP6 w z) \<Longrightarrow> z = []"
  by (auto simp: pfx_contains_def net6_def split: if_splits)

text \<open>A test of the bits from \<open>k\<close> up to \<open>m\<close> of an \<open>m\<close>-bit field compares its high bits.\<close>

lemma masked_field_eq:
  fixes x c :: "'a::len word"
  assumes x: "drop_bit m x = 0" and c: "push_bit k (drop_bit k c) = c"
  shows "x AND (mask m AND NOT (mask k)) = c \<longleftrightarrow> drop_bit k x = drop_bit k c"
proof -
  have below: "n < m" if "bit x n" for n
  proof (rule ccontr)
    assume "\<not> n < m"
    then have "bit (drop_bit m x) (n - m)" using that by (simp add: bit_simps)
    with x show False by simp
  qed
  have "x AND (mask m AND NOT (mask k)) = push_bit k (drop_bit k x)"
    by (rule bit_word_eqI) (auto simp: bit_simps dest: below bit_imp_le_length)
  moreover have "drop_bit k (push_bit k (drop_bit k v)) = drop_bit k v" for v :: "'a word"
    by (rule bit_word_eqI) (auto simp: bit_simps dest: bit_imp_le_length)
  ultimately show ?thesis using c by metis
qed

lemma drop_bit_length [simp]: "drop_bit 8 (drop_bit 120 (w :: 128 word)) = 0"
    "drop_bit 16 (drop_bit 112 (w :: 128 word)) = 0"
  by (rule bit_word_eqI, auto simp: bit_simps dest: bit_imp_le_length)+

lemma is_private6:
  assumes "\<not> mapped4 w" shows "is_private (IP6 w z) \<longleftrightarrow> pfx_contains ula_net (IP6 w [])"
proof -
  have "v6_hi8 w AND 0xfe = 0xfc \<longleftrightarrow> drop_bit 1 (v6_hi8 w) = drop_bit 1 0xfc"
    using masked_field_eq [where m = 8 and x = "v6_hi8 w" and k = 1 and c = "0xfc"] by (simp add: v6_hi8_def mask_numeral)
  also have "\<dots> \<longleftrightarrow> drop_bit 121 w = 0x7e"
    by (simp add: v6_hi8_def drop_bit_drop_bit)
  finally show ?thesis
    using assms by (simp add: is_private_def ula_net_def net6_contains)
qed

lemma is_link_local6:
  assumes "\<not> mapped4 w"
  shows "is_link_local_unicast (IP6 w z) \<longleftrightarrow> pfx_contains link_local_net (IP6 w [])"
proof -
  have "v6_hi16 w AND 0xffc0 = 0xfe80 \<longleftrightarrow> drop_bit 6 (v6_hi16 w) = drop_bit 6 0xfe80"
    using masked_field_eq [where m = 16 and x = "v6_hi16 w" and k = 6 and c = "0xfe80"] by (simp add: v6_hi16_def mask_numeral)
  also have "\<dots> \<longleftrightarrow> drop_bit 118 w = 0x3fa"
    by (simp add: v6_hi16_def drop_bit_drop_bit)
  finally show ?thesis
    using assms by (simp add: is_link_local_unicast_def link_local_net_def net6_contains)
qed

lemma is_multicast6:
  assumes "\<not> mapped4 w"
  shows "is_multicast (IP6 w z) \<longleftrightarrow> pfx_contains multicast_net (IP6 w [])"
  using assms by (simp add: is_multicast_def multicast_net_def net6_contains v6_hi8_def)

text \<open>A public address is plain IPv6 or an IPv4-mapped public IPv4 address.\<close>

lemma needs_announcement6:
  assumes "\<not> mapped4 w"
  shows "runtime_address_needs_announcement (IP6 w z) \<longleftrightarrow>
    IP6 w z \<noteq> IP6 0 [] \<and> w \<noteq> 1 \<and>
    \<not> pfx_contains multicast_net (IP6 w []) \<and>
    \<not> pfx_contains link_local_net (IP6 w []) \<and>
    \<not> pfx_contains ula_net (IP6 w [])"
  using assms
  by (auto simp: runtime_address_needs_announcement_def is_global_unicast_def Let_def
      is_private6 is_link_local6 is_multicast6 is_loopback_def)

lemma needs_announcement_is6:
  "runtime_address_needs_announcement a \<Longrightarrow> is6 a"
  by (simp add: runtime_address_needs_announcement_def)

text \<open>What the policy accepts can be advertised: it is a specified unicast IPv6 address.\<close>

lemma needs_announcement_unicast:
  "runtime_address_needs_announcement a \<Longrightarrow>
   is_valid a \<and> is6 a \<and> \<not> is_unspecified a \<and> \<not> is_multicast a"
  by (auto simp: runtime_address_needs_announcement_def is_global_unicast_def Let_def
      is_unspecified_def is_multicast_def mapped4_def)

end
