(* ===== verification/Active_Ips.thy ===== *)
theory Active_Ips
  imports Ip_Policy Ip_Set
begin

text \<open>
  \<open>active_ips.go\<close>, \<open>active_ips_linux.go\<close> and \<open>active_ips_nonlinux.go\<close>: the addresses of the
  container runtimes. Each source (a Docker network, a CNI lease directory) has its own set; the
  union is published as one immutable set behind an atomic pointer. A map from strings to address
  sets is an association list with distinct keys.

  Ranging over a Go map visits the keys in an order the language leaves open. The parameter
  \<open>ord\<close> stands for it: \<open>ord k A\<close> is the order in which the \<open>k\<close>-th \<open>range\<close> statement of the
  function visits \<open>A\<close>. The locale \<open>map_order\<close> says that every key is visited once.
\<close>

locale map_order =
  fixes ord :: "nat \<Rightarrow> addr set \<Rightarrow> addr list"
  assumes set_ord [simp]: "finite A \<Longrightarrow> set (ord k A) = A"
    and distinct_ord [simp]: "finite A \<Longrightarrow> distinct (ord k A)"

definition sorted_order :: "nat \<Rightarrow> addr set \<Rightarrow> addr list" where
  "sorted_order k A = sorted_list_of_set A"

interpretation so: map_order sorted_order
  by unfold_locales (auto simp: sorted_order_def)

section \<open>State\<close>

record 's active_state =
  active_ips :: 's
  active_ip_sources :: "(string \<times> addr set) list"
  active_ips_changed :: "unit list"
  new_active_ip :: "addr list"

definition source_addresses :: "(string \<times> addr set) list \<Rightarrow> string \<Rightarrow> addr set" where
  "source_addresses m source = (case map_of m source of None \<Rightarrow> {} | Some A \<Rightarrow> A)"

definition source_union :: "(string \<times> addr set) list \<Rightarrow> addr set" where
  "source_union m = \<Union> (snd ` set m)"

section \<open>Operations\<close>

definition accepted_addresses :: "addr list \<Rightarrow> addr set" where
  "accepted_addresses addresses =
     set (filter (\<lambda>a. is_valid a \<and> is6 a) (map unmap addresses))"

definition same_address_set :: "addr set \<Rightarrow> addr set \<Rightarrow> bool" where
  "same_address_set a b \<longleftrightarrow> card a = card b \<and> (\<forall>x \<in> a. x \<in> b)"

text \<open>
  \<open>publishNewActiveIP\<close>: on Linux a send to a buffer of 64 that drops the address when it is full,
  elsewhere nothing.
\<close>

definition publish_new_active_ip :: "string \<Rightarrow> addr \<Rightarrow> addr list \<Rightarrow> addr list" where
  "publish_new_active_ip goos address ch =
     (if goos = ''linux'' then try_send 64 address ch else ch)"

text \<open>The part of \<open>replaceActiveIPSource\<close> that runs under the lock: the two results are \<open>changed\<close>
  and \<open>newAddresses\<close>.\<close>

definition replace_locked ::
  "('s, 'm) ipset_api_scheme \<Rightarrow> (nat \<Rightarrow> addr set \<Rightarrow> addr list) \<Rightarrow> string \<Rightarrow> addr list \<Rightarrow>
   ('s, 'r) active_state_scheme \<Rightarrow> bool \<times> addr list \<times> ('s, 'r) active_state_scheme"
where
  "replace_locked api ord source addresses st =
     (let next = accepted_addresses addresses;
          previous = source_addresses (active_ip_sources st) source;
          changed = (\<not> same_address_set previous next);
          new_addresses = filter (\<lambda>a. a \<notin> previous) (ord 0 next);
          sources = AList.update source next (active_ip_sources st);
          union = concat (map (\<lambda>(_, A). map AddAddr (ord 1 A)) sources);
          result = fst (ips_build api union)
      in (changed, new_addresses, st\<lparr>active_ip_sources := sources, active_ips := result\<rparr>))"

definition signal_change :: "bool \<Rightarrow> ('s, 'r) active_state_scheme \<Rightarrow> ('s, 'r) active_state_scheme" where
  "signal_change changed st =
     (if changed then st\<lparr>active_ips_changed := try_send 1 () (active_ips_changed st)\<rparr> else st)"

definition announce_new ::
  "string \<Rightarrow> addr list \<Rightarrow> ('s, 'r) active_state_scheme \<Rightarrow> ('s, 'r) active_state_scheme"
where
  "announce_new goos addresses st =
     st\<lparr>new_active_ip := fold (publish_new_active_ip goos) addresses (new_active_ip st)\<rparr>"

definition replace_active_ip_source ::
  "('s, 'm) ipset_api_scheme \<Rightarrow> string \<Rightarrow> (nat \<Rightarrow> addr set \<Rightarrow> addr list) \<Rightarrow> string \<Rightarrow> addr list \<Rightarrow>
   ('s, 'r) active_state_scheme \<Rightarrow> ('s, 'r) active_state_scheme"
where
  "replace_active_ip_source api goos ord source addresses st =
     (case replace_locked api ord source addresses st of
        (changed, new_addresses, st') \<Rightarrow> announce_new goos new_addresses (signal_change changed st'))"

text \<open>\<open>activeAddressSnapshot\<close>: the union in the order of \<open>Addr.Compare\<close>.\<close>

definition active_address_snapshot ::
  "(nat \<Rightarrow> addr set \<Rightarrow> addr list) \<Rightarrow> ('s, 'r) active_state_scheme \<Rightarrow> addr list"
where
  "active_address_snapshot ord st = sort (ord 0 (source_union (active_ip_sources st)))"

definition init_active :: "('s, 'm) ipset_api_scheme \<Rightarrow> 's active_state" where
  "init_active api =
     \<lparr>active_ips = fst (ips_build api []), active_ip_sources = [], active_ips_changed = [],
      new_active_ip = []\<rparr>"

section \<open>Laws\<close>

text \<open>
  The invariant: one entry per source, each a finite set of valid IPv6 addresses that are not
  IPv4-mapped; both channels within their buffers.
\<close>

definition source_ok :: "addr set \<Rightarrow> bool" where
  "source_ok A \<longleftrightarrow> finite A \<and> (\<forall>a \<in> A. is_valid a \<and> is6 a \<and> \<not> is4in6 a)"

definition active_inv :: "('s, 'r) active_state_scheme \<Rightarrow> bool" where
  "active_inv st \<longleftrightarrow>
     distinct (map fst (active_ip_sources st)) \<and>
     (\<forall>(source, A) \<in> set (active_ip_sources st). source_ok A) \<and>
     length (active_ips_changed st) \<le> 1 \<and> length (new_active_ip st) \<le> 64 \<and>
     (\<forall>a \<in> set (new_active_ip st). is_valid a \<and> is6 a)"

text \<open>The published set is the one built from the sources.\<close>

definition published ::
  "('s, 'm) ipset_api_scheme \<Rightarrow> ('s, 'r) active_state_scheme \<Rightarrow> bool"
where
  "published api st \<longleftrightarrow>
     ((\<forall>a \<in> source_union (active_ip_sources st). addr_zone a = []) \<longrightarrow>
      (\<forall>a. ips_contains api (active_ips st) a \<longleftrightarrow> a \<in> source_union (active_ip_sources st)))"

lemma accepted_addresses_iff:
  "a \<in> accepted_addresses as \<longleftrightarrow> is_valid a \<and> is6 a \<and> (\<exists>b \<in> set as. a = unmap b)"
  by (auto simp: accepted_addresses_def)

lemma accepted_source_ok [simp]: "source_ok (accepted_addresses as)"
  by (auto simp: source_ok_def accepted_addresses_def is6_unmap unmap_id)

lemma same_address_set_iff: "finite a \<Longrightarrow> finite b \<Longrightarrow> same_address_set a b \<longleftrightarrow> a = b"
  unfolding same_address_set_def by (metis card_subset_eq subsetI)

lemma source_addresses_ok:
  "\<forall>(source, A) \<in> set m. source_ok A \<Longrightarrow> source_ok (source_addresses m source)"
  by (auto simp: source_addresses_def source_ok_def split: option.splits dest: map_of_SomeD)

lemma set_update_distinct:
  "distinct (map fst m) \<Longrightarrow>
   set (AList.update k v m) = insert (k, v) {p \<in> set m. fst p \<noteq> k}"
  by (induction m) (auto simp: image_iff)

lemma source_union_update:
  assumes "distinct (map fst m)"
  shows "source_union (AList.update k A m) = A \<union> \<Union> (snd ` {p \<in> set m. fst p \<noteq> k})"
  using assms by (auto simp: source_union_def set_update_distinct)

lemma source_addresses_update:
  "source_addresses (AList.update k A m) k' = (if k = k' then A else source_addresses m k')"
  by (simp add: source_addresses_def update_conv')

lemma source_union_iff:
  "distinct (map fst m) \<Longrightarrow> a \<in> source_union m \<longleftrightarrow> (\<exists>source. a \<in> source_addresses m source)"
proof
  assume d: "distinct (map fst m)" and "a \<in> source_union m"
  then obtain k A where "(k, A) \<in> set m" "a \<in> A" by (auto simp: source_union_def)
  with d have "a \<in> source_addresses m k" by (simp add: source_addresses_def)
  then show "\<exists>source. a \<in> source_addresses m source" ..
next
  assume "\<exists>source. a \<in> source_addresses m source"
  then show "a \<in> source_union m"
    by (force simp: source_union_def source_addresses_def split: option.splits
        dest: map_of_SomeD)
qed

lemma source_union_ok:
  assumes "active_inv st"
  shows "finite (source_union (active_ip_sources st))"
    and "a \<in> source_union (active_ip_sources st) \<Longrightarrow> is_valid a \<and> is6 a \<and> \<not> is4in6 a"
  using assms by (auto simp: active_inv_def source_union_def source_ok_def)

lemma publish_length:
  "length ch \<le> 64 \<Longrightarrow> length (fold (publish_new_active_ip goos) as ch) \<le> 64"
  by (induction as arbitrary: ch) (auto simp: publish_new_active_ip_def chan_simps)

lemma set_publish:
  "set (fold (publish_new_active_ip goos) as ch) \<subseteq> set ch \<union> set as"
proof (induction as arbitrary: ch)
  case (Cons a as)
  have "set (publish_new_active_ip goos a ch) \<subseteq> insert a (set ch)"
    using set_try_send [of 64 a ch] by (auto simp: publish_new_active_ip_def)
  with Cons.IH [of "publish_new_active_ip goos a ch"] show ?case by auto
qed simp

text \<open>What a call does to each field.\<close>

lemma replace_fields:
  shows "active_ip_sources (replace_active_ip_source api goos ord source addresses st) =
      AList.update source (accepted_addresses addresses) (active_ip_sources st)"
    and "active_ips_changed (replace_active_ip_source api goos ord source addresses st) =
      (if same_address_set (source_addresses (active_ip_sources st) source)
            (accepted_addresses addresses)
       then active_ips_changed st else try_send 1 () (active_ips_changed st))"
    and "new_active_ip (replace_active_ip_source api goos ord source addresses st) =
      fold (publish_new_active_ip goos)
        (filter (\<lambda>a. a \<notin> source_addresses (active_ip_sources st) source)
          (ord 0 (accepted_addresses addresses))) (new_active_ip st)"
    and "active_ips (replace_active_ip_source api goos ord source addresses st) =
      fst (ips_build api (concat (map (\<lambda>(_, A). map AddAddr (ord 1 A))
        (AList.update source (accepted_addresses addresses) (active_ip_sources st)))))"
    and "active_state.more (replace_active_ip_source api goos ord source addresses st) = active_state.more st"
  by (simp_all add: replace_active_ip_source_def replace_locked_def signal_change_def
      announce_new_def Let_def)

context map_order
begin

lemma replace_active_inv:
  assumes "active_inv st"
  shows "active_inv (replace_active_ip_source api goos ord source addresses st)"
proof -
  let ?A = "accepted_addresses addresses"
  have fin: "finite ?A" and six: "\<forall>a \<in> ?A. is_valid a \<and> is6 a"
    using accepted_source_ok by (auto simp: source_ok_def)
  have "set (fold (publish_new_active_ip goos)
      (filter (\<lambda>a. a \<notin> source_addresses (active_ip_sources st) source) (ord 0 ?A))
      (new_active_ip st)) \<subseteq> set (new_active_ip st) \<union> ?A"
    using fin set_publish by fastforce
  with assms six show ?thesis
    by (auto simp: active_inv_def replace_fields distinct_update set_update_distinct
        publish_length chan_simps try_send_length)
qed

lemma set_builder:
  assumes "\<forall>(source, A) \<in> set m. finite A"
  shows "concat (map (\<lambda>(_, A). map AddAddr (ord k A)) m) =
    map AddAddr (concat (map (\<lambda>(_, A). ord k A) m))"
    and "set (concat (map (\<lambda>(_, A). ord k A) m)) = source_union m"
  using assms by (induction m) (auto simp: source_union_def)

lemma snapshot_laws:
  assumes "active_inv st"
  shows "set (active_address_snapshot ord st) = source_union (active_ip_sources st)"
    and "sorted (active_address_snapshot ord st)"
    and "distinct (active_address_snapshot ord st)"
  using source_union_ok(1) [OF assms] by (simp_all add: active_address_snapshot_def)

end

locale address_store = ipset api + map_order ord
  for api :: "('s, 'm) ipset_api_scheme" and ord :: "nat \<Rightarrow> addr set \<Rightarrow> addr list"
begin

lemma replace_published:
  assumes "active_inv st"
  shows "published api (replace_active_ip_source api goos ord source addresses st)"
proof -
  let ?st = "replace_active_ip_source api goos ord source addresses st"
  let ?m = "active_ip_sources ?st"
  have inv: "active_inv ?st" using assms by (rule replace_active_inv)
  then have fin: "\<forall>(source, A) \<in> set ?m. finite A"
    by (auto simp: active_inv_def source_ok_def)
  have ips: "active_ips ?st = fst (ips_build api (map AddAddr (concat (map (\<lambda>(_, A). ord 1 A) ?m))))"
    using set_builder(1) [OF fin, of 1] by (simp add: replace_fields)
  show ?thesis
    unfolding published_def
  proof (intro impI allI)
    fix a
    assume "\<forall>a \<in> source_union ?m. addr_zone a = []"
    then have "\<forall>a \<in> set (concat (map (\<lambda>(_, A). ord 1 A) ?m)). is_valid a \<and> addr_zone a = []"
      using set_builder(2) [OF fin, of 1] source_union_ok(2) [OF inv] by auto
    then show "ips_contains api (active_ips ?st) a \<longleftrightarrow> a \<in> source_union ?m"
      using set_builder(2) [OF fin, of 1] by (simp only: ips contains_addrs)
  qed
qed

lemma init_published: "published api (init_active api)"
  using contains_addrs [of "[]"] by (simp add: published_def init_active_def source_union_def)

end

interpretation ref_store: address_store ref_ipset sorted_order ..

lemma init_active_inv: "active_inv (init_active api)"
  by (simp add: active_inv_def init_active_def)

text \<open>
  The store as a published view; an update is a refresh of one source. Addresses with a zone are
  outside the view: a set does not track zones.
\<close>

definition zone_free :: "addr list \<Rightarrow> bool" where
  "zone_free as = list_all (\<lambda>a. addr_zone a = []) as"

definition active_view_inv ::
  "('s, 'm) ipset_api_scheme \<Rightarrow> ('s, 'r) active_state_scheme \<Rightarrow> bool"
where
  "active_view_inv api st \<longleftrightarrow> active_inv st \<and> published api st \<and>
     (\<forall>a \<in> source_union (active_ip_sources st). addr_zone a = [])"

definition active_members :: "('s, 'r) active_state_scheme \<Rightarrow> addr \<Rightarrow> bool" where
  "active_members st a \<longleftrightarrow> a \<in> source_union (active_ip_sources st)"

definition refresh_step ::
  "('s, 'm) ipset_api_scheme \<Rightarrow> (nat \<Rightarrow> addr set \<Rightarrow> addr list) \<Rightarrow> string \<times> string \<times> addr list \<Rightarrow>
   ('s, 'r) active_state_scheme \<Rightarrow> ('s, 'r) active_state_scheme"
where
  "refresh_step api ord =
     (\<lambda>(goos, source, addresses) st. replace_active_ip_source api goos ord source addresses st)"

lemma unmap_zone: "addr_zone a = [] \<Longrightarrow> addr_zone (unmap a) = []"
  by (cases a) auto

lemma zone_free_accepted:
  "zone_free as \<Longrightarrow> a \<in> accepted_addresses as \<Longrightarrow> addr_zone a = []"
  by (auto simp: zone_free_def accepted_addresses_def list_all_iff unmap_zone)

lemma replace_union_subset:
  assumes "active_inv st"
  shows "source_union (active_ip_sources (replace_active_ip_source api goos ord source addresses st))
    \<subseteq> accepted_addresses addresses \<union> source_union (active_ip_sources st)"
  using assms by (auto simp: replace_fields source_union_update active_inv_def)
    (auto simp: source_union_def)

sublocale address_store \<subseteq> active: published_view "active_view_inv api"
  "\<lambda>(_, _, as). zone_free as" "refresh_step api ord"
  "\<lambda>st. ips_contains api (active_ips st)" active_members
proof unfold_locales
  fix st :: "('s, 'x) active_state_scheme" and e :: "string \<times> string \<times> addr list"
  assume inv: "active_view_inv api st" and legal: "case e of (_, _, as) \<Rightarrow> zone_free as"
  obtain goos source as where e: "e = (goos, source, as)" by (cases e)
  let ?st = "replace_active_ip_source api goos ord source as st"
  have "active_inv ?st" "published api ?st"
    using inv by (auto simp: active_view_inv_def intro: replace_active_inv replace_published)
  moreover have "addr_zone a = []" if "a \<in> source_union (active_ip_sources ?st)" for a
    using that inv legal replace_union_subset [of st api goos ord source as]
    by (auto simp: active_view_inv_def e zone_free_accepted)
  ultimately show "active_view_inv api (refresh_step api ord e st)"
    by (auto simp: active_view_inv_def refresh_step_def e)
qed (auto simp: active_view_inv_def published_def active_members_def)

section \<open>Properties\<close>

text \<open>What the latest of the refreshes \<open>es\<close> of a source reported.\<close>

definition reported :: "(string \<times> string \<times> addr list) list \<Rightarrow> string \<Rightarrow> addr set" where
  "reported es source =
     (case find (\<lambda>(_, s, _). s = source) (rev es) of
        None \<Rightarrow> {}
      | Some (_, _, addresses) \<Rightarrow> accepted_addresses addresses)"

lemma reported_snoc:
  "reported (es @ [(goos, s, addresses)]) source =
     (if s = source then accepted_addresses addresses else reported es source)"
  by (simp add: reported_def)

lemma sources_reported:
  "source_addresses (active_ip_sources (fold (refresh_step api ord) es (init_active api))) source =
     reported es source"
proof (induction es rule: rev_induct)
  case Nil
  then show ?case by (simp add: init_active_def source_addresses_def reported_def)
next
  case (snoc e es)
  obtain goos s addresses where e: "e = (goos, s, addresses)" by (cases e)
  from snoc show ?case
    by (simp add: e reported_snoc refresh_step_def replace_fields source_addresses_update)
qed

context address_store
begin

lemma init_view_inv: "active_view_inv api (init_active api)"
  using init_published [unfolded published_def] init_active_inv
  by (simp add: active_view_inv_def published_def init_active_def source_union_def)

lemma view_reported:
  assumes "list_all (\<lambda>(_, _, addresses). zone_free addresses) es"
  shows "ips_contains api (active_ips (fold (refresh_step api ord) es (init_active api))) a \<longleftrightarrow>
    (\<exists>source. a \<in> reported es source)"
proof -
  let ?st = "fold (refresh_step api ord) es (init_active api)"
  have "distinct (map fst (active_ip_sources ?st))"
    using active.run_inv [OF init_view_inv assms] by (simp add: active_view_inv_def active_inv_def)
  then show ?thesis
    using active.run_view [OF init_view_inv assms]
    by (simp add: active_members_def source_union_iff sources_reported)
qed

end

text \<open>C9: refinement of an abstract store. Whatever refreshes the Docker and CNI collectors made, an
  address is in the published set if and only if the latest report of some source contains it, in
  its unmapped form: no refresh of one source adds or drops an address of another, and nothing of
  an older report of the same source stays.\<close>

theorem runtime_view_is_latest_reports:
  assumes "ipset api" "map_order ord"
    and "list_all (\<lambda>(_, _, addresses). zone_free addresses) es"
  shows "ips_contains api (active_ips (fold (refresh_step api ord) es (init_active api))) a \<longleftrightarrow>
    (\<exists>source. a \<in> reported es source)"
  by (rule address_store.view_reported [OF address_store.intro [OF assms(1,2)] assms(3)])

theorem runtime_view_is_latest_reports_witness:
  "ips_contains ref_ipset
     (active_ips (fold (refresh_step ref_ipset sorted_order)
       [(''linux'', ''docker:a'', [IP6 1 []]), (''linux'', ''cni:/b'', [IP6 2 []]),
        (''linux'', ''docker:a'', [IP6 3 []])] (init_active ref_ipset))) (IP6 2 []) \<and>
   \<not> ips_contains ref_ipset
     (active_ips (fold (refresh_step ref_ipset sorted_order)
       [(''linux'', ''docker:a'', [IP6 1 []]), (''linux'', ''cni:/b'', [IP6 2 []]),
        (''linux'', ''docker:a'', [IP6 3 []])] (init_active ref_ipset))) (IP6 1 [])"
proof -
  let ?es = "[(''linux'', ''docker:a'', [IP6 1 []]), (''linux'', ''cni:/b'', [IP6 2 []]),
    (''linux'', ''docker:a'', [IP6 3 []])]"
  have z: "list_all (\<lambda>(_, _, addresses). zone_free addresses) ?es" by (simp add: zone_free_def)
  note view = runtime_view_is_latest_reports [OF ref.ipset_axioms so.map_order_axioms z]
  have "IP6 2 [] \<in> reported ?es ''cni:/b''" by code_simp
  moreover have "IP6 1 [] \<notin> reported ?es s" for s
    by (auto simp: reported_def accepted_addresses_def)
  ultimately show ?thesis unfolding view by blast
qed

text \<open>C37: functional behaviour of one refresh: it replaces the addresses of its own source by the
  accepted ones, signals a change if and only if the set differs (or a signal is pending), keeps
  what is queued for announcement and queues at most the addresses that are new, all of them when
  the queue has room.\<close>

theorem replace_source_effect:
  assumes "active_inv st" "map_order ord"
  shows "let st' = replace_active_ip_source api ''linux'' ord source addresses st;
             old = source_addresses (active_ip_sources st) source;
             new = accepted_addresses addresses
    in source_addresses (active_ip_sources st') s =
         (if s = source then new else source_addresses (active_ip_sources st) s) \<and>
       (active_ips_changed st' = [] \<longleftrightarrow> active_ips_changed st = [] \<and> old = new) \<and>
       set (new_active_ip st) \<subseteq> set (new_active_ip st') \<and>
       set (new_active_ip st') \<subseteq> set (new_active_ip st) \<union> (new - old) \<and>
       length (new_active_ip st') \<le> 64 \<and>
       (length (new_active_ip st) + card (new - old) \<le> 64 \<longrightarrow>
          set (new_active_ip st') = set (new_active_ip st) \<union> (new - old))"
proof -
  let ?st' = "replace_active_ip_source api ''linux'' ord source addresses st"
  let ?old = "source_addresses (active_ip_sources st) source"
  let ?new = "accepted_addresses addresses"
  let ?xs = "filter (\<lambda>a. a \<notin> ?old) (ord 0 ?new)"
  have fin: "finite ?new" using accepted_source_ok by (simp add: source_ok_def)
  have ok: "source_ok ?old"
    using assms(1) by (intro source_addresses_ok) (simp add: active_inv_def)
  then have same: "same_address_set ?old ?new \<longleftrightarrow> ?old = ?new"
    by (intro same_address_set_iff fin) (simp add: source_ok_def)
  have xs: "set ?xs = ?new - ?old" "distinct ?xs"
    using assms(2) fin by (auto simp: map_order.set_ord map_order.distinct_ord)
  have queue: "new_active_ip ?st' = fold (try_send 64) ?xs (new_active_ip st)"
    by (simp add: replace_fields publish_new_active_ip_def [abs_def])
  have len: "length ?xs = card (?new - ?old)" using xs distinct_card by metis
  have mono: "set ch \<subseteq> set (fold (try_send 64) ys ch)" for ys and ch :: "addr list"
    by (induction ys arbitrary: ch) (auto dest: set_mp [OF set_try_send_mono])
  have room: "length (new_active_ip st) + card (?new - ?old) \<le> 64 \<Longrightarrow>
      new_active_ip ?st' = new_active_ip st @ ?xs"
    unfolding queue len [symmetric] by (rule fold_try_send_room)
  have changed: "active_ips_changed ?st' = [] \<longleftrightarrow> active_ips_changed st = [] \<and> ?old = ?new"
    by (simp add: replace_fields same try_send_def)
  have "length (new_active_ip ?st') \<le> 64"
    unfolding queue using assms(1) by (intro fold_try_send_length) (simp add: active_inv_def)
  with changed show ?thesis
    unfolding Let_def
    using mono [of "new_active_ip st" ?xs] set_fold_try_send [of 64 ?xs "new_active_ip st"]
      room xs(1)
    by (simp add: replace_fields(1) source_addresses_update queue Un_commute)
qed

theorem replace_source_effect_witness:
  "set (new_active_ip (replace_active_ip_source ref_ipset ''linux'' sorted_order ''docker:a''
     [IP6 1 []] (init_active ref_ipset))) = {IP6 1 []}"
proof -
  have new: "accepted_addresses [IP6 1 []] = {IP6 1 []}" by code_simp
  have old: "source_addresses (active_ip_sources (init_active ref_ipset)) s = {}"
    and queue: "new_active_ip (init_active ref_ipset) = []" for s
    by (simp_all add: init_active_def source_addresses_def)
  show ?thesis
    using replace_source_effect [OF init_active_inv [of ref_ipset] so.map_order_axioms,
        of ref_ipset "''docker:a''" "[IP6 1 []]" "''docker:a''"]
    by (simp add: Let_def new old queue)
qed

text \<open>The snapshot the responder announces from is the union of all sources in ascending
  order without repetition; it does not depend on the order in which the maps are visited.\<close>

lemma snapshot_is_sorted_union:
  assumes "active_inv st" "map_order ord"
  shows "active_address_snapshot ord st = sorted_list_of_set (source_union (active_ip_sources st)) \<and>
    (a \<in> set (active_address_snapshot ord st) \<longleftrightarrow>
       (\<exists>source. a \<in> source_addresses (active_ip_sources st) source))"
proof -
  note laws = map_order.snapshot_laws [OF assms(2,1)]
  have "active_address_snapshot ord st = sorted_list_of_set (source_union (active_ip_sources st))"
    using laws by (metis sorted_list_of_set.idem_if_sorted_distinct)
  moreover have "distinct (map fst (active_ip_sources st))" using assms(1) by (simp add: active_inv_def)
  ultimately show ?thesis using laws(1) by (simp add: source_union_iff)
qed

end
