(* ===== verification/Announce.thy ===== *)
theory Announce
  imports Responder Static_Targets Active_Ips Ip_Policy
begin

text \<open>
  The first half of \<open>runtime_linux.go\<close>: which solicitations are answered, the announcement of one
  address, of the static targets, of the runtime addresses at start-up, and the handlers of the two
  channels. Writing to the packet socket is an answer of the kernel, indexed by the number of
  packets written before; \<open>wr_sent\<close> is what went out.
\<close>

record wire =
  wr_count :: nat
  wr_sent :: "bytes list"

definition write_packet :: "(nat \<Rightarrow> bytes \<Rightarrow> error option) \<Rightarrow> bytes \<Rightarrow> wire \<Rightarrow> error option \<times> wire" where
  "write_packet net bs w =
     (case net (wr_count w) bs of
        Some e \<Rightarrow> (Some e, w\<lparr>wr_count := Suc (wr_count w)\<rparr>)
      | None \<Rightarrow> (None, w\<lparr>wr_count := Suc (wr_count w), wr_sent := wr_sent w @ [bs]\<rparr>))"

text \<open>\<open>solicitationTargetReason\<close>; a nil set is \<open>None\<close>.\<close>

definition solicitation_target_reason ::
  "('s, 'm) ipset_api_scheme \<Rightarrow> addr \<Rightarrow> 's option \<Rightarrow> 's option \<Rightarrow> string \<times> bool"
where
  "solicitation_target_reason api target runtime_set static_set =
     (if (case runtime_set of None \<Rightarrow> False | Some s \<Rightarrow> ips_contains api s target) \<and>
         runtime_address_needs_announcement target
      then (''runtime'', True)
      else if (case static_set of None \<Rightarrow> False | Some s \<Rightarrow> ips_contains api s target)
      then (''static'', True)
      else ('''', False))"

definition announce_address ::
  "serializer \<Rightarrow> (nat \<Rightarrow> bytes \<Rightarrow> error option) \<Rightarrow> host_info \<Rightarrow> addr \<Rightarrow> wire \<Rightarrow> bool \<times> wire"
where
  "announce_address ser net hi ip w =
     (case unsolicited_advertisement ser hi ip of
        Inl e \<Rightarrow> (False, w)
      | Inr bs \<Rightarrow>
          (case write_packet net bs w of
             (Some e, w) \<Rightarrow> (False, w)
           | (None, w) \<Rightarrow> (True, w)))"

text \<open>The loop over the sorted addresses of \<open>announceStaticTargets\<close>.\<close>

fun announce_missing ::
  "serializer \<Rightarrow> (nat \<Rightarrow> bytes \<Rightarrow> error option) \<Rightarrow> host_info \<Rightarrow> addr set \<Rightarrow> addr list \<Rightarrow> wire \<Rightarrow>
   addr set \<times> wire"
where
  "announce_missing ser net hi announced [] w = (announced, w)"
| "announce_missing ser net hi announced (ip # ips) w =
     (if ip \<in> announced then announce_missing ser net hi announced ips w
      else case announce_address ser net hi ip w of
        (True, w) \<Rightarrow> announce_missing ser net hi (insert ip announced) ips w
      | (False, w) \<Rightarrow> announce_missing ser net hi announced ips w)"

definition static_hosts :: "ipprefix list \<Rightarrow> addr set" where
  "static_hosts prefixes = pfx_addr ` {p \<in> set prefixes. pfx_bits p = 128}"

definition announce_static_targets ::
  "(nat \<Rightarrow> addr set \<Rightarrow> addr list) \<Rightarrow> serializer \<Rightarrow> (nat \<Rightarrow> bytes \<Rightarrow> error option) \<Rightarrow> host_info \<Rightarrow>
   ipprefix list \<Rightarrow> addr set \<Rightarrow> wire \<Rightarrow> addr set \<times> wire"
where
  "announce_static_targets ord ser net hi targets announced w =
     (let current = static_hosts targets;
          addresses = sort (ord 0 current)
      in case announce_missing ser net hi announced addresses w of
        (announced, w) \<Rightarrow> ({ip \<in> announced. ip \<in> current}, w))"

text \<open>The loop over \<open>activeAddressSnapshot\<close> before the responder reports ready.\<close>

definition announce_runtime_startup ::
  "serializer \<Rightarrow> (nat \<Rightarrow> bytes \<Rightarrow> error option) \<Rightarrow> host_info \<Rightarrow> addr list \<Rightarrow> wire \<Rightarrow> wire"
where
  "announce_runtime_startup ser net hi snapshot w =
     fold (\<lambda>ip w. if runtime_address_needs_announcement ip
                  then snd (announce_address ser net hi ip w) else w) snapshot w"

text \<open>The handler of a captured solicitation.\<close>

definition handle_solicitation ::
  "('s, 'm) ipset_api_scheme \<Rightarrow> serializer \<Rightarrow> (nat \<Rightarrow> bytes \<Rightarrow> error option) \<Rightarrow> host_info \<Rightarrow>
   's option \<Rightarrow> 's option \<Rightarrow> neigh_solicitation \<Rightarrow> wire \<Rightarrow> wire"
where
  "handle_solicitation api ser net hi runtime_set static_set ns w =
     (case solicitation_target_reason api (target_ip ns) runtime_set static_set of
        (reason, False) \<Rightarrow> w
      | (reason, True) \<Rightarrow>
          (case respond ser ns hi of
             Inl e \<Rightarrow> w
           | Inr bs \<Rightarrow> snd (write_packet net bs w)))"

text \<open>
  The handler of a new runtime address; the first result is a panic. \<open>nonce\<close> is what
  \<open>rand.Read\<close> gives.
\<close>

definition handle_new_active_ip ::
  "serializer \<Rightarrow> (nat \<Rightarrow> bytes \<Rightarrow> error option) \<Rightarrow> bytes \<Rightarrow> host_info \<Rightarrow> addr \<Rightarrow> wire \<Rightarrow>
   error option \<times> wire"
where
  "handle_new_active_ip ser net nonce hi ip w =
     (if \<not> runtime_address_needs_announcement ip then (None, w)
      else
        let w = (case unsolicited_advertisement ser hi ip of
                   Inl e \<Rightarrow> w
                 | Inr bs \<Rightarrow> snd (write_packet net bs w))
        in case gratuitous ser nonce hi ip of
          Inl e \<Rightarrow> (if is_panic e then Some e else None, w)
        | Inr bs \<Rightarrow>
            let w = snd (write_packet net bs w) in
            if \<not> is_valid (gateway_ip hi) then (None, w)
            else case solicit ser hi ip of
              Inl e \<Rightarrow> (if is_panic e then Some e else None, w)
            | Inr bs \<Rightarrow> (None, snd (write_packet net bs w)))"

definition err_solicitation_capture_stopped :: error where
  "err_solicitation_capture_stopped =
     ErrorsNew ''neighbor solicitation capture stopped unexpectedly''"

definition solicitation_capture_stop_error :: "bool \<Rightarrow> error option" where
  "solicitation_capture_stop_error cancelled =
     (if cancelled then None else Some err_solicitation_capture_stopped)"

section \<open>Laws of the announcements\<close>

text \<open>
  \<open>adds P w w'\<close>: the packets of \<open>w\<close> are still there, in their order, and every new one satisfies
  \<open>P\<close>.
\<close>

definition adds :: "(bytes \<Rightarrow> bool) \<Rightarrow> wire \<Rightarrow> wire \<Rightarrow> bool" where
  "adds P w w' \<longleftrightarrow> (\<exists>new. wr_sent w' = wr_sent w @ new \<and> list_all P new)"

lemma adds_refl [simp, intro]: "adds P w w"
  by (simp add: adds_def)

lemma adds_trans: "adds P w1 w2 \<Longrightarrow> adds P w2 w3 \<Longrightarrow> adds P w1 w3"
  by (auto simp: adds_def)

lemma adds_mono: "adds P w w' \<Longrightarrow> (\<And>bs. P bs \<Longrightarrow> Q bs) \<Longrightarrow> adds Q w w'"
  by (auto simp: adds_def list_all_iff)

lemma adds_write: "P bs \<Longrightarrow> adds P w (snd (write_packet net bs w))"
  by (auto simp: adds_def write_packet_def split: option.split)

text \<open>The frames for an address: its advertisement, its solicitation and that of the gateway.\<close>

definition advert_for :: "serializer \<Rightarrow> host_info \<Rightarrow> addr \<Rightarrow> bytes \<Rightarrow> bool" where
  "advert_for ser hi ip bs \<longleftrightarrow>
     ser (unsolicited_layers hi ip) = Inr bs \<and> valid_advertisement (unsolicited_layers hi ip)"

lemma unsolicited_advert_for:
  "unsolicited_advertisement ser hi ip = Inr bs \<Longrightarrow> advert_for ser hi ip bs"
  by (auto simp: unsolicited_result advert_for_def unsolicited_valid split: if_splits)

lemma announce_address_adds: "adds (advert_for ser hi ip) w (snd (announce_address ser net hi ip w))"
  using adds_write [of "advert_for ser hi ip"]
  by (auto simp: announce_address_def split: sum.split prod.split option.split
      dest!: unsolicited_advert_for) (metis snd_conv)+

text \<open>
  A sequence of writes, each attempted whatever became of the one before: the socket is asked for the
  numbers from \<open>n\<close> on, and what it accepts goes out.
\<close>

definition accepted_writes :: "(nat \<Rightarrow> bytes \<Rightarrow> error option) \<Rightarrow> nat \<Rightarrow> ('a \<times> bytes) list \<Rightarrow> ('a \<times> bytes) list" where
  "accepted_writes net n xs = map snd (filter (\<lambda>(k, _, bs). net k bs = None) (enumerate n xs))"

definition after_writes :: "(nat \<Rightarrow> bytes \<Rightarrow> error option) \<Rightarrow> ('a \<times> bytes) list \<Rightarrow> wire \<Rightarrow> wire" where
  "after_writes net xs w =
     w\<lparr>wr_count := wr_count w + length xs,
       wr_sent := wr_sent w @ map snd (accepted_writes net (wr_count w) xs)\<rparr>"

lemma accepted_writes_simps [simp]:
  "accepted_writes net n [] = []"
  "accepted_writes net n (x # xs) =
     (if net n (snd x) = None then [x] else []) @ accepted_writes net (Suc n) xs"
  by (auto simp: accepted_writes_def split: prod.split)

lemma accepted_writes_subset: "set (accepted_writes net n xs) \<subseteq> set xs"
  by (induction xs arbitrary: n) auto

lemma accepted_writes_all:
  "x \<in> set xs \<Longrightarrow> \<forall>k. net k (snd x) = None \<Longrightarrow> x \<in> set (accepted_writes net n xs)"
  by (induction xs arbitrary: n) auto

lemma after_writes_simps:
  "after_writes net [] w = w"
  "after_writes net (x # xs) w = after_writes net xs (snd (write_packet net (snd x) w))"
  by (auto simp: after_writes_def write_packet_def split: option.split)

text \<open>The advertisements of a list of hosts, as far as they can be built.\<close>

definition built_adverts :: "serializer \<Rightarrow> host_info \<Rightarrow> addr list \<Rightarrow> (addr \<times> bytes) list" where
  "built_adverts ser hi ips =
     List.map_filter (\<lambda>ip. case unsolicited_advertisement ser hi ip of
       Inl e \<Rightarrow> None | Inr bs \<Rightarrow> Some (ip, bs)) ips"

lemma built_adverts_iff:
  "(ip, bs) \<in> set (built_adverts ser hi ips) \<longleftrightarrow> ip \<in> set ips \<and> unsolicited_advertisement ser hi ip = Inr bs"
  by (force simp: built_adverts_def List.map_filter_def split: sum.splits)

lemma announce_missing_exact:
  "distinct ips \<Longrightarrow>
   announce_missing ser net hi A ips w =
     (let xs = built_adverts ser hi (filter (\<lambda>ip. ip \<notin> A) ips)
      in (A \<union> fst ` set (accepted_writes net (wr_count w) xs), after_writes net xs w))"
proof (induction ips arbitrary: A w)
  case Nil
  then show ?case by (simp add: built_adverts_def List.map_filter_simps after_writes_simps)
next
  case (Cons ip ips)
  have same: "filter (\<lambda>q. q \<notin> insert ip A) ips = filter (\<lambda>q. q \<notin> A) ips"
    using Cons.prems by (auto intro: filter_cong)
  show ?case
  proof (cases "ip \<in> A")
    case True
    with Cons show ?thesis by simp
  next
    case False
    with Cons same show ?thesis
      by (cases "unsolicited_advertisement ser hi ip")
        (auto simp: announce_address_def write_packet_def built_adverts_def List.map_filter_simps
          after_writes_simps Let_def split: option.split)
  qed
qed

lemma finite_static_hosts [simp]: "finite (static_hosts prefixes)"
  by (simp add: static_hosts_def)

lemma static_hosts_iff:
  "ip \<in> static_hosts ps \<longleftrightarrow> (\<exists>p \<in> set ps. pfx_bits p = 128 \<and> ip = pfx_addr p)"
  by (auto simp: static_hosts_def)

context map_order
begin

lemma sorted_hosts: "sort (ord 0 (static_hosts ps)) = sorted_list_of_set (static_hosts ps)"
  by (rule sorted_distinct_set_unique) auto

lemma announce_static_exact:
  "announce_static_targets ord ser net hi ps announced w =
     (let xs = built_adverts ser hi (sorted_list_of_set (static_hosts ps - announced))
      in (announced \<inter> static_hosts ps \<union> fst ` set (accepted_writes net (wr_count w) xs), after_writes net xs w))"
proof -
  let ?ips = "sorted_list_of_set (static_hosts ps)"
  have filt: "filter (\<lambda>ip. ip \<notin> announced) ?ips = sorted_list_of_set (static_hosts ps - announced)"
    by (rule sorted_distinct_set_unique) (auto simp: sorted_wrt_filter)
  let ?xs = "built_adverts ser hi (sorted_list_of_set (static_hosts ps - announced))"
  have "fst ` set (accepted_writes net (wr_count w) ?xs) \<subseteq> static_hosts ps"
    using accepted_writes_subset [of net "wr_count w" ?xs] built_adverts_iff [of _ _ ser hi]
    by (fastforce simp: built_adverts_iff)
  then show ?thesis
    using announce_missing_exact [of ?ips ser net hi announced w]
    by (auto simp: announce_static_targets_def Let_def sorted_hosts filt)
qed

lemma announce_static_laws:
  assumes "announce_static_targets ord ser net hi ps announced w = (announced', w')"
  shows "announced' \<subseteq> static_hosts ps"
    and "adds (\<lambda>bs. \<exists>ip \<in> static_hosts ps - announced. advert_for ser hi ip bs) w w'"
proof -
  let ?xs = "built_adverts ser hi (sorted_list_of_set (static_hosts ps - announced))"
  have built: "ip \<in> static_hosts ps - announced \<and> advert_for ser hi ip bs"
    if "(ip, bs) \<in> set (accepted_writes net (wr_count w) ?xs)" for ip bs
    using that accepted_writes_subset [of net "wr_count w" ?xs]
    by (auto simp: built_adverts_iff dest!: subsetD intro: unsolicited_advert_for)
  with assms show "announced' \<subseteq> static_hosts ps" by (auto simp: announce_static_exact Let_def)
  from assms built show "adds (\<lambda>bs. \<exists>ip \<in> static_hosts ps - announced. advert_for ser hi ip bs) w w'"
    by (fastforce simp: announce_static_exact Let_def adds_def after_writes_def list_all_iff)
qed

lemma announce_static_retry:
  assumes "ip \<in> static_hosts ps" "ip \<notin> announced" "unsolicited_advertisement ser hi ip = Inr bs"
    and "\<forall>k. net k bs = None"
  shows "ip \<in> fst (announce_static_targets ord ser net hi ps announced w)"
    and "\<exists>new. wr_sent (snd (announce_static_targets ord ser net hi ps announced w)) = wr_sent w @ new \<and> bs \<in> set new"
proof -
  let ?xs = "built_adverts ser hi (sorted_list_of_set (static_hosts ps - announced))"
  have "(ip, bs) \<in> set ?xs" using assms(1-3) by (simp add: built_adverts_iff)
  then have "(ip, bs) \<in> set (accepted_writes net (wr_count w) ?xs)"
    using assms(4) by (intro accepted_writes_all) simp_all
  then have "ip \<in> fst ` set (accepted_writes net (wr_count w) ?xs)"
    "bs \<in> set (map snd (accepted_writes net (wr_count w) ?xs))"
    by force+
  then show "ip \<in> fst (announce_static_targets ord ser net hi ps announced w)"
    "\<exists>new. wr_sent (snd (announce_static_targets ord ser net hi ps announced w)) = wr_sent w @ new \<and> bs \<in> set new"
    by (simp_all add: announce_static_exact Let_def after_writes_def)
qed

end

section \<open>Laws of the handlers\<close>

lemma target_reason_iff:
  "snd (solicitation_target_reason api target rset sset) \<longleftrightarrow>
     (\<exists>s. rset = Some s \<and> ips_contains api s target) \<and> runtime_address_needs_announcement target \<or>
     (\<exists>s. sset = Some s \<and> ips_contains api s target)"
  by (auto simp: solicitation_target_reason_def split: option.split)

text \<open>The answer to a solicitation.\<close>

definition answer_for :: "serializer \<Rightarrow> host_info \<Rightarrow> neigh_solicitation \<Rightarrow> bytes \<Rightarrow> bool" where
  "answer_for ser hi ns bs \<longleftrightarrow> ser (respond_layers ns hi) = Inr bs"

lemma handle_solicitation_adds:
  "adds (\<lambda>bs. snd (solicitation_target_reason api (target_ip ns) rset sset) \<and> answer_for ser hi ns bs)
     w (handle_solicitation api ser net hi rset sset ns w)"
  using adds_write [where w = w and net = net]
  by (auto simp: handle_solicitation_def respond_def answer_for_def split: prod.split bool.split sum.split)

text \<open>A frame for a new runtime address.\<close>

definition update_for :: "serializer \<Rightarrow> bytes \<Rightarrow> host_info \<Rightarrow> addr \<Rightarrow> bytes \<Rightarrow> bool" where
  "update_for ser nonce hi ip bs \<longleftrightarrow>
     advert_for ser hi ip bs \<or> ser (gratuitous_layers nonce hi ip (as_slice ip)) = Inr bs \<or>
     (is_valid (gateway_ip hi) \<and> (\<exists>gw. as16 (gateway_ip hi) = Inr gw \<and> ser (solicit_layers hi ip gw) = Inr bs))"

definition never_panics :: "serializer \<Rightarrow> bool" where
  "never_panics ser \<longleftrightarrow> (\<forall>ls e. ser ls = Inl e \<longrightarrow> \<not> is_panic e)"

lemma handle_new_adds:
  "adds (\<lambda>bs. runtime_address_needs_announcement ip \<and> update_for ser nonce hi ip bs)
     w (snd (handle_new_active_ip ser net nonce hi ip w))"
proof (cases "runtime_address_needs_announcement ip")
  case True
  let ?P = "\<lambda>bs. runtime_address_needs_announcement ip \<and> update_for ser nonce hi ip bs"
  define w1 where "w1 = (case unsolicited_advertisement ser hi ip of Inl e \<Rightarrow> w
    | Inr bs \<Rightarrow> snd (write_packet net bs w))"
  have 1: "adds ?P w w1"
    using True by (auto simp: w1_def update_for_def dest: unsolicited_advert_for intro: adds_write split: sum.split)
  have six: "as16 ip = Inr (as_slice ip)"
    using needs_announcement_is6 [OF True] by (rule as16_six)
  show ?thesis
  proof (cases "gratuitous ser nonce hi ip")
    case (Inl e)
    with True 1 show ?thesis by (simp add: handle_new_active_ip_def w1_def [symmetric])
  next
    case (Inr bs)
    let ?w2 = "snd (write_packet net bs w1)"
    have "?P bs" using Inr True by (simp add: gratuitous_def six update_for_def)
    with 1 have 2: "adds ?P w ?w2" by (blast intro: adds_trans adds_write)
    show ?thesis
    proof (cases "is_valid (gateway_ip hi) \<and> is_ok (solicit ser hi ip)")
      case False
      with True Inr 2 show ?thesis
        by (auto simp: handle_new_active_ip_def w1_def [symmetric] Let_def is_ok_def split: sum.splits)
    next
      case go: True
      then obtain bs' where s: "solicit ser hi ip = Inr bs'" by (auto simp: is_ok_def split: sum.splits)
      then have "?P bs'" using go True by (auto simp: solicit_def update_for_def split: sum.splits)
      with 2 have "adds ?P w (snd (write_packet net bs' ?w2))" by (blast intro: adds_trans adds_write)
      with go True Inr s show ?thesis
        by (simp add: handle_new_active_ip_def w1_def [symmetric] Let_def)
    qed
  qed
qed (simp add: handle_new_active_ip_def)

lemma handle_new_no_panic:
  assumes "never_panics ser"
  shows "fst (handle_new_active_ip ser net nonce hi ip w) = None"
proof (cases "runtime_address_needs_announcement ip")
  case True
  have "\<not> is_panic e" if "gratuitous ser nonce hi ip = Inl e" for e
    using that assms as16_six [OF needs_announcement_is6 [OF True]]
    by (auto simp: gratuitous_def never_panics_def)
  moreover have "\<not> is_panic e" if "solicit ser hi ip = Inl e" "is_valid (gateway_ip hi)" for e
    using that assms by (cases "gateway_ip hi") (auto simp: solicit_def never_panics_def)
  ultimately show ?thesis
    by (auto simp: handle_new_active_ip_def Let_def split: sum.split)
qed (simp add: handle_new_active_ip_def)

text \<open>An IPv4-mapped target is accepted, but no captured solicitation asks for it.\<close>

lemma mapped_target_unanswered:
  assumes "static_target p" "pfx_bits p = 128" "is4in6 (pfx_addr p)" "captured decode r = Some ns"
  shows "\<not> pfx_contains p (target_ip ns)"
  using static_host_contains [OF assms(1,2)] captured_unmapped [OF assms(4)] assms(3) by metis

section \<open>Properties\<close>

text \<open>What can be advertised, and the announcements when the serializer and the socket do not fail.\<close>

definition advertisable :: "addr \<Rightarrow> bool" where
  "advertisable ip \<longleftrightarrow> is6 ip \<and> \<not> is_unspecified ip \<and> \<not> is_multicast ip"

lemma accepted_all: "accepted_writes (\<lambda>_ _. None) n xs = xs"
  by (induction xs arbitrary: n) auto

lemma built_all:
  assumes "length (host_mac hi) = 6"
  shows "built_adverts (\<lambda>ls. Inr (f ls)) hi ips =
    map (\<lambda>ip. (ip, f (unsolicited_layers hi ip))) (filter advertisable ips)"
  using assms
  by (induction ips) (auto simp: built_adverts_def List.map_filter_def unsolicited_result advertisable_def)

context map_order
begin

lemma announce_static_total:
  assumes "length (host_mac hi) = 6"
  shows "announce_static_targets ord (\<lambda>ls. Inr (f ls)) (\<lambda>_ _. None) hi ps announced w = (announced', w') \<Longrightarrow>
    announced' = {ip \<in> static_hosts ps. ip \<in> announced \<or> advertisable ip} \<and>
    wr_sent w' = wr_sent w @ map (\<lambda>ip. f (unsolicited_layers hi ip))
      (sorted_list_of_set {ip \<in> static_hosts ps. ip \<notin> announced \<and> advertisable ip})"
proof -
  have "filter advertisable (sorted_list_of_set (static_hosts ps - announced)) =
      sorted_list_of_set {ip \<in> static_hosts ps. ip \<notin> announced \<and> advertisable ip}"
    by (rule sorted_distinct_set_unique) (auto simp: sorted_wrt_filter)
  moreover assume "announce_static_targets ord (\<lambda>ls. Inr (f ls)) (\<lambda>_ _. None) hi ps announced w = (announced', w')"
  ultimately show ?thesis
    by (auto simp: announce_static_exact Let_def built_all [OF assms] accepted_all after_writes_def comp_def
        image_image)
qed

end

text \<open>C20: the announcements of the static targets. With a socket that takes every packet, one call sends
  exactly one advertisement for each target of length 128 that can be advertised and was not
  announced before, in ascending order of the addresses, and remembers exactly the current hosts that were announced; a
  second call with the same targets sends nothing.\<close>

theorem static_announcements:
  assumes "map_order ord" "length (host_mac hi) = 6"
    and "announce_static_targets ord (\<lambda>ls. Inr (f ls)) (\<lambda>_ _. None) hi ps announced w = (announced1, w1)"
    and "announce_static_targets ord (\<lambda>ls. Inr (f ls)) (\<lambda>_ _. None) hi ps announced1 w1 = (announced2, w2)"
  shows "announced1 = {ip \<in> static_hosts ps. ip \<in> announced \<or> advertisable ip} \<and>
    wr_sent w1 = wr_sent w @ map (\<lambda>ip. f (unsolicited_layers hi ip))
      (sorted_list_of_set {ip \<in> static_hosts ps. ip \<notin> announced \<and> advertisable ip}) \<and>
    announced2 = announced1 \<and> wr_sent w2 = wr_sent w1"
proof -
  note total = map_order.announce_static_total [OF assms(1,2)]
  have one: "announced1 = {ip \<in> static_hosts ps. ip \<in> announced \<or> advertisable ip}"
    and two: "announced2 = {ip \<in> static_hosts ps. ip \<in> announced1 \<or> advertisable ip}"
    using total [OF assms(3)] total [OF assms(4)] by blast+
  then have "announced2 = announced1" by auto
  moreover have "{ip \<in> static_hosts ps. ip \<notin> announced1 \<and> advertisable ip} = {}" using one by auto
  ultimately show ?thesis using total [OF assms(3)] total [OF assms(4)] by simp
qed

definition sample_hosts :: "ipprefix list" where
  "sample_hosts = [\<lparr>pfx_addr = IP6 9 [], pfx_bits = 128\<rparr>, \<lparr>pfx_addr = IP6 0 [], pfx_bits = 128\<rparr>,
     \<lparr>pfx_addr = IP6 16 [], pfx_bits = 124\<rparr>, \<lparr>pfx_addr = IP6 7 [], pfx_bits = 128\<rparr>]"

theorem static_announcements_witness:
  "fst (announce_static_targets sorted_order (\<lambda>ls. Inr []) (\<lambda>_ _. None) sample_host sample_hosts {}
     \<lparr>wr_count = 0, wr_sent = []\<rparr>) = {IP6 7 [], IP6 9 []}"
proof -
  let ?r = "announce_static_targets sorted_order (\<lambda>ls. Inr []) (\<lambda>_ _. None) sample_host sample_hosts {}
    \<lparr>wr_count = 0, wr_sent = []\<rparr>"
  let ?r2 = "announce_static_targets sorted_order (\<lambda>ls. Inr []) (\<lambda>_ _. None) sample_host sample_hosts
    (fst ?r) (snd ?r)"
  have mac: "length (host_mac sample_host) = 6" by (simp add: sample_host_def)
  have "{ip \<in> static_hosts sample_hosts. ip \<in> {} \<or> advertisable ip} = {IP6 7 [], IP6 9 []}"
    by code_simp
  then show ?thesis
    using static_announcements [OF so.map_order_axioms mac, of "\<lambda>_. []" sample_hosts "{}"
        "\<lparr>wr_count = 0, wr_sent = []\<rparr>" "fst ?r" "snd ?r" "fst ?r2" "snd ?r2"] by simp
qed

text \<open>C21: announcements when packets fail. Whatever the serializer and the socket do, a call tries every current
  host that is not yet announced, in ascending order and each of them once, a failure not stopping the
  rest: the advertisements that can be built are written one after the other, those the socket
  accepts go out, and the hosts remembered are the current ones announced before and those whose
  advertisement went out now. So a host whose announcement failed is tried again: any later call
  for which it is still a target sends its advertisement and remembers it, once it can be built
  and the socket accepts it.\<close>

theorem failed_announcements_are_retried:
  assumes "map_order ord"
    and "xs = built_adverts ser hi (sorted_list_of_set (static_hosts ps - announced))"
    and "announce_static_targets ord ser net hi ps announced w = (announced', w')"
  shows "w' = w\<lparr>wr_count := wr_count w + length xs,
                wr_sent := wr_sent w @ map snd (accepted_writes net (wr_count w) xs)\<rparr> \<and>
    announced' = announced \<inter> static_hosts ps \<union> fst ` set (accepted_writes net (wr_count w) xs) \<and>
    (ip \<in> static_hosts ps' \<and> ip \<notin> announced' \<and> unsolicited_advertisement ser' hi ip = Inr bs \<and>
       (\<forall>k. net' k bs = None) \<longrightarrow>
     ip \<in> fst (announce_static_targets ord ser' net' hi ps' announced' v) \<and>
     (\<exists>new. wr_sent (snd (announce_static_targets ord ser' net' hi ps' announced' v)) = wr_sent v @ new \<and>
        bs \<in> set new))"
  using map_order.announce_static_exact [OF assms(1), of ser net hi ps announced w]
    map_order.announce_static_retry [OF assms(1), of ip ps' announced' ser' hi bs net' v] assms(2,3)
  by (simp add: after_writes_def Let_def)

definition first_write_fails :: "nat \<Rightarrow> bytes \<Rightarrow> error option" where
  "first_write_fails n bs = (if n = 0 then Some (Environment ''down'') else None)"

theorem failed_announcements_are_retried_witness:
  "let (announced, w) = announce_static_targets sorted_order (\<lambda>ls. Inr []) first_write_fails sample_host
       sample_hosts {} \<lparr>wr_count = 0, wr_sent = []\<rparr>
   in announced = {IP6 9 []} \<and> w = \<lparr>wr_count = 2, wr_sent = [[]]\<rparr> \<and>
      IP6 7 [] \<in> fst (announce_static_targets sorted_order (\<lambda>ls. Inr []) (\<lambda>_ _. None) sample_host
        sample_hosts announced w)"
proof -
  let ?w = "\<lparr>wr_count = 0, wr_sent = []\<rparr> :: wire"
  let ?r = "announce_static_targets sorted_order (\<lambda>ls. Inr []) first_write_fails sample_host sample_hosts {} ?w"
  define xs where "xs = built_adverts (\<lambda>ls. Inr []) sample_host (sorted_list_of_set (static_hosts sample_hosts - {}))"
  have hosts: "static_hosts sample_hosts = {IP6 9 [], IP6 0 [], IP6 7 []}" by code_simp
  have "xs = [(IP6 7 [], []), (IP6 9 [], [])]"
    unfolding xs_def hosts by code_simp
  moreover have "unsolicited_advertisement (\<lambda>ls. Inr []) sample_host (IP6 7 []) = Inr []" by code_simp
  moreover obtain announced w where r: "?r = (announced, w)" by force
  ultimately show ?thesis
    using failed_announcements_are_retried [OF so.map_order_axioms xs_def r, of "IP6 7 []" sample_hosts "\<lambda>ls. Inr []" "[]" "\<lambda>_ _. None" w]
    by (auto simp: hosts first_write_fails_def numeral_2_eq_2)
qed

text \<open>C4: which solicitations are answered. With the published sets of consistent stores, a
  solicitation is answered if and only if its target is a public address some runtime source
  reports, or lies in one of the current static targets; then exactly the advertisement \<open>Respond\<close>
  builds is written, and nothing is written otherwise.\<close>

theorem solicitation_answered_iff_covered:
  assumes "ipset api" "static_inv api static" "active_view_inv api active"
  shows "handle_solicitation api ser net hi (Some (active_ips active)) (current_static_target_set static) ns w =
    (if runtime_address_needs_announcement (target_ip ns) \<and>
          (\<exists>source. target_ip ns \<in> source_addresses (active_ip_sources active) source) \<or>
        (\<exists>p \<in> set (static_targets static). pfx_contains p (target_ip ns))
     then case respond ser ns hi of Inl e \<Rightarrow> w | Inr bs \<Rightarrow> snd (write_packet net bs w)
     else w)"
proof -
  obtain s where s: "current_static_target_set static = Some s"
    "\<And>a. ips_contains api s a \<longleftrightarrow> (\<exists>p \<in> set (static_targets static). pfx_contains p a)"
    using ipset.static_set_members [OF assms(1,2)] by (auto simp: current_static_targets_def)
  have "ips_contains api (active_ips active) a \<longleftrightarrow> (\<exists>source. a \<in> source_addresses (active_ip_sources active) source)" for a
    using assms(3) by (simp add: active_view_inv_def published_def active_inv_def source_union_iff)
  then have "snd (solicitation_target_reason api (target_ip ns) (Some (active_ips active)) (current_static_target_set static)) \<longleftrightarrow>
      runtime_address_needs_announcement (target_ip ns) \<and>
          (\<exists>source. target_ip ns \<in> source_addresses (active_ip_sources active) source) \<or>
        (\<exists>p \<in> set (static_targets static). pfx_contains p (target_ip ns))"
    by (auto simp: target_reason_iff s)
  then show ?thesis
    by (auto simp: handle_solicitation_def split: prod.split bool.split sum.split)
qed

theorem solicitation_answered_iff_covered_witness:
  "wr_sent (handle_solicitation ref_ipset (\<lambda>ls. Inr [1]) (\<lambda>_ _. None) sample_host
     (Some (active_ips (replace_active_ip_source ref_ipset ''linux'' sorted_order ''docker:web''
        [target_ip sample_solicitation] (init_active ref_ipset))))
     (current_static_target_set sample_store) sample_solicitation \<lparr>wr_count = 0, wr_sent = []\<rparr>) = [[1]]"
proof -
  let ?as = "[target_ip sample_solicitation]"
  let ?active = "replace_active_ip_source ref_ipset ''linux'' sorted_order ''docker:web'' ?as (init_active ref_ipset)"
  have static: "static_inv ref_ipset sample_store" by (simp add: static_inv_def sample_store_def)
  have "zone_free ?as" by (simp add: zone_free_def sample_solicitation_def)
  then have active: "active_view_inv ref_ipset ?active"
    using ref_store.active.step_inv [OF ref_store.init_view_inv, of "(''linux'', ''docker:web'', ?as)"]
    by (simp add: refresh_step_def)
  have "target_ip sample_solicitation \<in> accepted_addresses ?as" by code_simp
  then have "target_ip sample_solicitation \<in> source_addresses (active_ip_sources ?active) ''docker:web''"
    by (simp add: replace_fields source_addresses_update)
  moreover have "runtime_address_needs_announcement (target_ip sample_solicitation)" by code_simp
  ultimately show ?thesis
    unfolding solicitation_answered_iff_covered [OF ref.ipset_axioms static active]
    by (auto simp: respond_def write_packet_def)
qed

text \<open>C19: the announcement of a new runtime address, whatever the serializer and the socket do. For an
  address that is not public nothing is written. A public address is announced by an unsolicited
  advertisement, then a probe for duplicates, then, when there is a gateway, a solicitation of it:
  each of them is written when it can be built, a write the socket refuses does not stop the
  ones after it, a missing advertisement does not stop the probe, but without a probe the gateway is
  not solicited. The first two are valid messages, the third is when the gateway is a unicast
  address, and the handler never panics unless the serializer does.\<close>

theorem new_address_frames:
  assumes "length (host_mac hi) = 6" "gateway_ip hi = NoAddr \<or> is6 (gateway_ip hi)"
    and "handle_new_active_ip ser net nonce hi ip w = (panic, w')"
  shows "w' = after_writes net
      (if \<not> runtime_address_needs_announcement ip then []
       else
         (case ser (unsolicited_layers hi ip) of Inl e \<Rightarrow> [] | Inr bs \<Rightarrow> [(''advertisement'', bs)]) @
         (case ser (gratuitous_layers nonce hi ip (as_slice ip)) of
            Inl e \<Rightarrow> []
          | Inr bs \<Rightarrow> (''probe'', bs) #
              (if gateway_ip hi = NoAddr then []
               else case ser (solicit_layers hi ip (as_slice (gateway_ip hi))) of
                 Inl e \<Rightarrow> [] | Inr bs \<Rightarrow> [(''solicitation'', bs)]))) w \<and>
    (never_panics ser \<longrightarrow> panic = None) \<and>
    (runtime_address_needs_announcement ip \<longrightarrow>
       valid_advertisement (unsolicited_layers hi ip) \<and>
       valid_solicitation (gratuitous_layers nonce hi ip (as_slice ip)) \<and>
       (addr_zone ip = [] \<and> is6 (gateway_ip hi) \<and> \<not> is_multicast (gateway_ip hi) \<longrightarrow>
          valid_solicitation (solicit_layers hi ip (as_slice (gateway_ip hi)))))"
proof (cases "runtime_address_needs_announcement ip")
  case True
  note ip = needs_announcement_unicast [OF True]
  have gw: "is_valid (gateway_ip hi) \<longleftrightarrow> gateway_ip hi \<noteq> NoAddr" by (cases "gateway_ip hi") auto
  have gw16: "gateway_ip hi \<noteq> NoAddr \<Longrightarrow> as16 (gateway_ip hi) = Inr (as_slice (gateway_ip hi))"
    using assms(2) as16_six by blast
  have ip16: "as16 ip = Inr (as_slice ip)" using needs_announcement_is6 [OF True] by (rule as16_six)
  have "addr_zone ip = [] \<Longrightarrow> without_zone ip = ip" by (cases ip) auto
  moreover have "never_panics ser \<longrightarrow> panic = None"
    using handle_new_no_panic [of ser net nonce hi ip w] assms(3) by auto
  moreover have "w' = snd (handle_new_active_ip ser net nonce hi ip w)" by (simp add: assms(3))
  moreover have "snd (handle_new_active_ip ser net nonce hi ip w) = after_writes net
      ((case ser (unsolicited_layers hi ip) of Inl e \<Rightarrow> [] | Inr bs \<Rightarrow> [(''advertisement'', bs)]) @
       (case ser (gratuitous_layers nonce hi ip (as_slice ip)) of
          Inl e \<Rightarrow> []
        | Inr bs \<Rightarrow> (''probe'', bs) #
            (if gateway_ip hi = NoAddr then []
             else case ser (solicit_layers hi ip (as_slice (gateway_ip hi))) of
               Inl e \<Rightarrow> [] | Inr bs \<Rightarrow> [(''solicitation'', bs)]))) w"
    using True ip assms(1) gw gw16 ip16
    by (simp add: handle_new_active_ip_def unsolicited_result gratuitous_def solicit_def Let_def
        after_writes_simps split: sum.split)
  ultimately show ?thesis
    using True ip assms(1) unsolicited_valid [OF assms(1), of ip] gratuitous_valid [of ip nonce hi]
      solicit_valid [of ip hi]
    by simp
qed (use assms(3) in \<open>simp add: handle_new_active_ip_def after_writes_simps\<close>)

theorem new_address_frames_witness:
  "wr_sent (snd (handle_new_active_ip (\<lambda>ls. Inr [of_nat (length ls)]) first_write_fails [1, 2, 3, 4, 5, 6]
     sample_host (target_ip sample_solicitation) \<lparr>wr_count = 0, wr_sent = []\<rparr>)) = [[4], [4]]"
proof -
  have hi: "length (host_mac sample_host) = 6" "gateway_ip sample_host = NoAddr \<or> is6 (gateway_ip sample_host)"
    and ip: "runtime_address_needs_announcement (target_ip sample_solicitation)"
    by code_simp+
  have gw: "gateway_ip sample_host \<noteq> NoAddr" by (simp add: sample_host_def)
  have "length (unsolicited_layers hi a) = 4" "length (gratuitous_layers n hi a t) = 4"
    "length (solicit_layers hi a t) = 4" for hi a n t
    by (simp_all add: unsolicited_layers_def gratuitous_layers_def solicit_layers_def icmp6_packet_def Let_def)
  then show ?thesis
    using new_address_frames [OF hi prod.collapse [symmetric], of "\<lambda>ls. Inr [of_nat (length ls)]" first_write_fails
        "[1, 2, 3, 4, 5, 6]" "target_ip sample_solicitation" "\<lparr>wr_count = 0, wr_sent = []\<rparr>"] ip gw
    by (simp add: after_writes_def first_write_fails_def)
qed

end
