(* ===== verification/Docker.thy ===== *)
theory Docker
  imports Active_Ips Netip_Text
begin

text \<open>
  \<open>docker.go\<close> and \<open>docker_dragonfly.go\<close>: the refresh of the configured Docker or Podman networks
  and the loop that listens for their events. The API client is a library and its answers are
  parameters: \<open>NetworkInfo\<close> gives an error, no network, or the IPv6 addresses of the network's
  containers in the order the code ranges over them.
\<close>

type_synonym network_info = "string \<Rightarrow> error + string list option"

definition docker_ip_source :: "string \<Rightarrow> string" where
  "docker_ip_source name = ''docker:'' @ name"

definition runtime_ipv6_address :: "string \<Rightarrow> addr \<times> bool" where
  "runtime_ipv6_address value =
     (let value = trim_space value in
        case parse_prefix value of
          Some prefix \<Rightarrow> let address = unmap (pfx_addr prefix) in (address, is6 address)
        | None \<Rightarrow>
            (case parse_addr value of
               Some address \<Rightarrow> let address = unmap address in (address, is6 address)
             | None \<Rightarrow> (NoAddr, False)))"

text \<open>The loop over the containers of a network.\<close>

fun container_addresses :: "string list \<Rightarrow> addr list" where
  "container_addresses [] = []"
| "container_addresses (ct # cts) =
     (if ct = [] then container_addresses cts
      else case runtime_ipv6_address ct of
        (ip, False) \<Rightarrow> container_addresses cts
      | (ip, True) \<Rightarrow> ip # container_addresses cts)"

definition docker_refresh_network ::
  "('s, 'm) ipset_api_scheme \<Rightarrow> string \<Rightarrow> (nat \<Rightarrow> addr set \<Rightarrow> addr list) \<Rightarrow> network_info \<Rightarrow> string \<Rightarrow>
   ('s, 'r) active_state_scheme \<Rightarrow> error option \<times> ('s, 'r) active_state_scheme"
where
  "docker_refresh_network api goos ord info name st =
     (let source = docker_ip_source name in
        case info name of
          Inl e \<Rightarrow>
            (Some (Errorf ''inspect network %q: %w'' [name] (Some e)),
             replace_active_ip_source api goos ord source [] st)
        | Inr None \<Rightarrow>
            (Some (Errorf ''inspect network %q: empty response'' [name] None),
             replace_active_ip_source api goos ord source [] st)
        | Inr (Some containers) \<Rightarrow>
            (None, replace_active_ip_source api goos ord source (container_addresses containers) st))"

definition errors_join :: "error list \<Rightarrow> error option" where
  "errors_join es = (if es = [] then None else Some (Joined es))"

fun refresh_docker_networks_loop ::
  "(string \<Rightarrow> 'st \<Rightarrow> error option \<times> 'st) \<Rightarrow> string set \<Rightarrow> error list \<Rightarrow> string list \<Rightarrow> 'st \<Rightarrow>
   error option \<times> 'st"
where
  "refresh_docker_networks_loop refresh seen errs [] st = (errors_join errs, st)"
| "refresh_docker_networks_loop refresh seen errs (network # networks) st =
     (if network \<in> seen then refresh_docker_networks_loop refresh seen errs networks st
      else case refresh network st of
        (Some e, st') \<Rightarrow>
          refresh_docker_networks_loop refresh (insert network seen) (errs @ [e]) networks st'
      | (None, st') \<Rightarrow>
          refresh_docker_networks_loop refresh (insert network seen) errs networks st')"

definition refresh_docker_networks ::
  "string list \<Rightarrow> (string \<Rightarrow> 'st \<Rightarrow> error option \<times> 'st) \<Rightarrow> 'st \<Rightarrow> error option \<times> 'st"
where
  "refresh_docker_networks networks refresh st =
     refresh_docker_networks_loop refresh {} [] networks st"

definition docker_refresh_configured_networks ::
  "('s, 'm) ipset_api_scheme \<Rightarrow> string \<Rightarrow> (nat \<Rightarrow> addr set \<Rightarrow> addr list) \<Rightarrow> network_info \<Rightarrow>
   string list \<Rightarrow> ('s, 'r) active_state_scheme \<Rightarrow> error option \<times> ('s, 'r) active_state_scheme"
where
  "docker_refresh_configured_networks api goos ord info docker_networks st =
     refresh_docker_networks docker_networks (docker_refresh_network api goos ord info) st"

text \<open>\<open>dockerListen\<close> of \<open>docker_dragonfly.go\<close>.\<close>

definition docker_listen_dragonfly :: "'st \<Rightarrow> error option \<times> 'st" where
  "docker_listen_dragonfly st =
     (Some (Errorf ''Docker-compatible API mode is unavailable on DragonFly BSD; use static /128 targets or CNI host-local leases'' [] None), st)"

declare docker_listen_dragonfly_def [simp]

text \<open>
  \<open>dockerListen\<close>: the results of creating the client and of the ping come from the library. On
  success the event loop is started in the state the refresh left.
\<close>

definition docker_listen ::
  "('s, 'm) ipset_api_scheme \<Rightarrow> string \<Rightarrow> (nat \<Rightarrow> addr set \<Rightarrow> addr list) \<Rightarrow> network_info \<Rightarrow>
   error option \<Rightarrow> error option \<Rightarrow> string list \<Rightarrow>
   ('s, 'r) active_state_scheme \<Rightarrow> error option \<times> ('s, 'r) active_state_scheme"
where
  "docker_listen api goos ord info client ping docker_networks st =
     (if goos = ''dragonfly'' then docker_listen_dragonfly st
      else case client of
        Some e \<Rightarrow> (Some (Errorf ''create Docker-compatible API client: %w'' [] (Some e)), st)
      | None \<Rightarrow>
        (case ping of
           Some e \<Rightarrow> (Some (Errorf ''ping Docker-compatible API: %w'' [] (Some e)), st)
         | None \<Rightarrow>
           (case docker_refresh_configured_networks api goos ord info docker_networks st of
              (Some e, st') \<Rightarrow>
                (Some (Errorf ''inspect configured Docker-compatible networks: %w'' [] (Some e)), st')
            | (None, st') \<Rightarrow> (None, st'))))"

section \<open>The event loop\<close>

text \<open>
  \<open>dockerEventLoop\<close> as a state machine: at its head, listening for events, waiting before it
  reconnects, or returned. \<open>listeners\<close> counts the event channels registered with the client and
  not yet removed, \<open>tickers\<close> the running tickers. The context can be cancelled at any point; at its
  head the loop then returns, and in a \<open>select\<close> the cancelled context is one of the branches, any
  of which may be taken when several are ready.
\<close>

datatype docker_pc = LoopHead | Listening | Backoff | Returned

record 's docker_state =
  dk_pc :: docker_pc
  dk_listeners :: nat
  dk_tickers :: nat
  dk_active :: "'s active_state"
  dk_cancelled :: bool

inductive docker_step ::
  "('s, 'm) ipset_api_scheme \<Rightarrow> string \<Rightarrow> string list \<Rightarrow> 's docker_state \<Rightarrow> 's docker_state \<Rightarrow> bool"
  for api :: "('s, 'm) ipset_api_scheme" and goos :: string and networks :: "string list"
where
  context_cancelled:
    "\<not> dk_cancelled d \<Longrightarrow> docker_step api goos networks d (d\<lparr>dk_cancelled := True\<rparr>)"
| head_cancelled:
    "dk_pc d = LoopHead \<Longrightarrow> dk_cancelled d \<Longrightarrow> docker_step api goos networks d (d\<lparr>dk_pc := Returned\<rparr>)"
| head_subscribed:
    "dk_pc d = LoopHead \<Longrightarrow> \<not> dk_cancelled d \<Longrightarrow> map_order ord \<Longrightarrow>
     docker_refresh_configured_networks api goos ord info networks (dk_active d) = (r, st') \<Longrightarrow>
     docker_step api goos networks d
       (d\<lparr>dk_pc := Listening, dk_listeners := Suc (dk_listeners d),
          dk_tickers := Suc (dk_tickers d), dk_active := st'\<rparr>)"
| head_refused:
    "dk_pc d = LoopHead \<Longrightarrow> \<not> dk_cancelled d \<Longrightarrow> map_order ord \<Longrightarrow>
     docker_refresh_configured_networks api goos ord info networks (dk_active d) = (r, st') \<Longrightarrow>
     docker_step api goos networks d (d\<lparr>dk_pc := Backoff, dk_active := st'\<rparr>)"
| listen_cancelled:
    "dk_pc d = Listening \<Longrightarrow> dk_cancelled d \<Longrightarrow>
     docker_step api goos networks d
       (d\<lparr>dk_pc := Returned, dk_tickers := dk_tickers d - 1, dk_listeners := dk_listeners d - 1\<rparr>)"
| listen_event_or_tick:
    "dk_pc d = Listening \<Longrightarrow> map_order ord \<Longrightarrow>
     docker_refresh_configured_networks api goos ord info networks (dk_active d) = (r, st') \<Longrightarrow>
     docker_step api goos networks d (d\<lparr>dk_active := st'\<rparr>)"
| listen_closed:
    "dk_pc d = Listening \<Longrightarrow>
     docker_step api goos networks d
       (d\<lparr>dk_pc := Backoff, dk_tickers := dk_tickers d - 1, dk_listeners := dk_listeners d - 1\<rparr>)"
| backoff_cancelled:
    "dk_pc d = Backoff \<Longrightarrow> dk_cancelled d \<Longrightarrow> docker_step api goos networks d (d\<lparr>dk_pc := Returned\<rparr>)"
| backoff_elapsed:
    "dk_pc d = Backoff \<Longrightarrow> docker_step api goos networks d (d\<lparr>dk_pc := LoopHead\<rparr>)"

inductive_cases docker_step_from: "docker_step api goos networks d d'"

definition docker_start :: "'s active_state \<Rightarrow> 's docker_state" where
  "docker_start st = \<lparr>dk_pc = LoopHead, dk_listeners = 0, dk_tickers = 0, dk_active = st,
     dk_cancelled = False\<rparr>"

section \<open>Laws\<close>

fun run_refresh :: "(string \<Rightarrow> 'st \<Rightarrow> error option \<times> 'st) \<Rightarrow> string list \<Rightarrow> 'st \<Rightarrow> error list \<times> 'st" where
  "run_refresh refresh [] st = ([], st)"
| "run_refresh refresh (n # ns) st =
     (case refresh n st of (r, st') \<Rightarrow>
        (case run_refresh refresh ns st' of (es, st'') \<Rightarrow>
           ((case r of None \<Rightarrow> es | Some e \<Rightarrow> e # es), st'')))"

lemma refresh_loop_spec:
  "refresh_docker_networks_loop refresh seen errs ns st =
     (case run_refresh refresh (filter (\<lambda>n. n \<notin> seen) (firsts ns)) st of
        (es, st') \<Rightarrow> (errors_join (errs @ es), st'))"
proof (induction refresh seen errs ns st rule: refresh_docker_networks_loop.induct)
  case (1 refresh seen errs st)
  then show ?case by simp
next
  case (2 refresh seen errs n ns st)
  show ?case
  proof (cases "n \<in> seen")
    case True
    then have "filter (\<lambda>m. m \<notin> seen) (firsts (n # ns)) = filter (\<lambda>m. m \<notin> seen) (firsts ns)"
      by (auto simp: firsts_Cons intro: filter_cong)
    with True 2 show ?thesis by simp
  next
    case False
    then have "filter (\<lambda>m. m \<notin> seen) (firsts (n # ns)) =
        n # filter (\<lambda>m. m \<notin> insert n seen) (firsts ns)"
      by (auto simp: firsts_Cons intro: filter_cong)
    with False 2 show ?thesis
      by (cases "refresh n st"; cases "fst (refresh n st)") (auto split: prod.splits)
  qed
qed

lemma refresh_docker_networks_spec:
  "refresh_docker_networks networks refresh st =
     (case run_refresh refresh (firsts networks) st of (es, st') \<Rightarrow> (errors_join es, st'))"
  by (simp add: refresh_docker_networks_def refresh_loop_spec)

text \<open>What a network contributes: nothing when its inspection fails.\<close>

definition network_addresses :: "network_info \<Rightarrow> string \<Rightarrow> addr set" where
  "network_addresses info name =
     (case info name of Inr (Some cts) \<Rightarrow> accepted_addresses (container_addresses cts) | _ \<Rightarrow> {})"

definition network_ok :: "network_info \<Rightarrow> string \<Rightarrow> bool" where
  "network_ok info name \<longleftrightarrow> (\<exists>cts. info name = Inr (Some cts))"

lemma accepted_Nil [simp]: "accepted_addresses [] = {}"
  by (simp add: accepted_addresses_def)

lemma refresh_network_sources:
  "active_ip_sources (snd (docker_refresh_network api goos ord info name st)) =
     AList.update (docker_ip_source name) (network_addresses info name) (active_ip_sources st)"
  by (auto simp: docker_refresh_network_def network_addresses_def Let_def replace_fields
      split: sum.splits option.splits)

lemma refresh_network_result:
  "fst (docker_refresh_network api goos ord info name st) = None \<longleftrightarrow> network_ok info name"
  by (auto simp: docker_refresh_network_def network_ok_def Let_def
      split: sum.splits option.splits)

lemma docker_ip_source_inj [simp]: "docker_ip_source a = docker_ip_source b \<longleftrightarrow> a = b"
  by (simp add: docker_ip_source_def)

lemma run_refresh_sources:
  assumes "distinct ns"
  shows "source_addresses (active_ip_sources
      (snd (run_refresh (docker_refresh_network api goos ord info) ns st))) s =
    (if s \<in> docker_ip_source ` set ns then network_addresses info (drop 7 s)
     else source_addresses (active_ip_sources st) s)"
  using assms
proof (induction ns arbitrary: st)
  case Nil
  then show ?case by simp
next
  case (Cons n ns)
  have "drop 7 (docker_ip_source n) = n" by (simp add: docker_ip_source_def)
  with Cons show ?case
    by (auto simp: split_beta refresh_network_sources source_addresses_update)
qed

lemma run_refresh_errors:
  "fst (run_refresh (docker_refresh_network api goos ord info) ns st) = [] \<longleftrightarrow>
   list_all (network_ok info) ns"
proof (induction ns arbitrary: st)
  case (Cons n ns)
  then show ?case
    using refresh_network_result [of api goos ord info n st]
    by (cases "fst (docker_refresh_network api goos ord info n st)") (auto simp: split_beta)
qed simp

lemma docker_refresh_mirrors:
  assumes "docker_refresh_configured_networks api goos ord info networks st = (r, st')"
  shows "source_addresses (active_ip_sources st') (docker_ip_source n) =
      (if n \<in> set networks then network_addresses info n
       else source_addresses (active_ip_sources st) (docker_ip_source n))"
    and "s \<notin> range docker_ip_source \<Longrightarrow>
      source_addresses (active_ip_sources st') s = source_addresses (active_ip_sources st) s"
    and "r = None \<longleftrightarrow> list_all (network_ok info) networks"
proof -
  let ?r = "run_refresh (docker_refresh_network api goos ord info) (firsts networks) st"
  have st': "st' = snd ?r" and r: "r = errors_join (fst ?r)"
    using assms
    by (auto simp: docker_refresh_configured_networks_def refresh_docker_networks_spec
        split: prod.splits)
  have n: "drop 7 (docker_ip_source n) = n" by (simp add: docker_ip_source_def)
  show "source_addresses (active_ip_sources st') (docker_ip_source n) =
      (if n \<in> set networks then network_addresses info n
       else source_addresses (active_ip_sources st) (docker_ip_source n))"
    unfolding st' by (subst run_refresh_sources) (auto simp: n)
  show "source_addresses (active_ip_sources st') s = source_addresses (active_ip_sources st) s"
    if "s \<notin> range docker_ip_source"
    unfolding st' using that by (subst run_refresh_sources) auto
  show "r = None \<longleftrightarrow> list_all (network_ok info) networks"
    unfolding r errors_join_def using run_refresh_errors [of api goos ord info "firsts networks" st]
    by (auto simp: list_all_iff)
qed

context map_order
begin

lemma refresh_network_inv:
  "active_inv st \<Longrightarrow> active_inv (snd (docker_refresh_network api goos ord info name st))"
  by (auto simp: docker_refresh_network_def Let_def replace_active_inv
      split: sum.splits option.splits)

lemma run_refresh_inv:
  "active_inv st \<Longrightarrow>
   active_inv (snd (run_refresh (docker_refresh_network api goos ord info) ns st))"
  by (induction ns arbitrary: st) (auto simp: split_beta refresh_network_inv)

lemma docker_refresh_inv:
  "active_inv st \<Longrightarrow>
   active_inv (snd (docker_refresh_configured_networks api goos ord info networks st))"
  using run_refresh_inv [of st api goos info "firsts networks"]
  by (simp add: docker_refresh_configured_networks_def refresh_docker_networks_spec split_beta)

end

text \<open>The event loop owns its listener and its ticker exactly while it listens.\<close>

definition docker_inv :: "'s docker_state \<Rightarrow> bool" where
  "docker_inv d \<longleftrightarrow> active_inv (dk_active d) \<and>
     dk_listeners d = (if dk_pc d = Listening then 1 else 0) \<and>
     dk_tickers d = (if dk_pc d = Listening then 1 else 0) \<and>
     (dk_pc d = Returned \<longrightarrow> dk_cancelled d)"

lemma docker_refresh_inv_eq:
  "map_order ord \<Longrightarrow> active_inv st \<Longrightarrow>
   docker_refresh_configured_networks api goos ord info networks st = (r, st') \<Longrightarrow> active_inv st'"
  by (metis map_order.docker_refresh_inv snd_conv)

lemma docker_step_inv:
  "docker_step api goos networks d d' \<Longrightarrow> docker_inv d \<Longrightarrow> docker_inv d'"
  by (induction rule: docker_step.induct) (auto simp: docker_inv_def intro: docker_refresh_inv_eq)

lemma docker_start_inv: "active_inv st \<Longrightarrow> docker_inv (docker_start st)"
  by (simp add: docker_inv_def docker_start_def)

lemma docker_returned_final:
  "docker_step api goos networks d d' \<Longrightarrow> dk_pc d = Returned \<Longrightarrow> \<not> dk_cancelled d"
  by (auto elim: docker_step_from)

text \<open>In every state but the last one a cancelled context makes the loop return in one step.\<close>

lemma docker_cancel_returns:
  "dk_pc d \<noteq> Returned \<Longrightarrow> dk_cancelled d \<Longrightarrow>
   \<exists>d'. docker_step api goos networks d d' \<and> dk_pc d' = Returned"
  by (cases "dk_pc d") (auto intro: docker_step.intros exI)

lemma docker_listen_inv:
  "map_order ord \<Longrightarrow> active_inv a \<Longrightarrow>
   active_inv (snd (docker_listen api goos ord info client ping ns a))"
  using map_order.docker_refresh_inv [of ord a api goos info ns]
  by (auto simp: docker_listen_def split: option.split prod.split)

section \<open>Properties\<close>

lemma accepted_container_addresses:
  "a \<in> accepted_addresses (container_addresses cts) \<longleftrightarrow>
     (\<exists>ct \<in> set cts. runtime_ipv6_address ct = (a, True))"
proof -
  have empty: "snd (runtime_ipv6_address []) = False" by code_simp
  have six: "runtime_ipv6_address ct = (b, True) \<Longrightarrow> is6 b \<and> unmap b = b" for ct b
    by (auto simp: runtime_ipv6_address_def Let_def is6_unmap_eq split: option.splits)
  have "b \<in> set (container_addresses cts) \<longleftrightarrow> (\<exists>ct \<in> set cts. runtime_ipv6_address ct = (b, True))" for b
  proof (induction cts)
    case (Cons ct cts)
    obtain ip ok where "runtime_ipv6_address ct = (ip, ok)" by force
    with Cons empty show ?case by (cases ok) auto
  qed simp
  then show ?thesis unfolding accepted_addresses_iff using six by (metis is6_valid)
qed

text \<open>C31: what the inspection of the configured networks leaves. Every configured network contributes
  exactly the IPv6 addresses of its containers, in address or CIDR form, and nothing when its
  inspection fails or answers nothing, so a removed network stops being advertised; the other
  sources stay; and the call fails if and only if the inspection of some network does.\<close>

theorem docker_refresh_mirrors_containers:
  assumes "docker_refresh_configured_networks api goos ord info networks st = (r, st')"
  shows "(a \<in> source_addresses (active_ip_sources st') (docker_ip_source n) \<longleftrightarrow>
      (if n \<in> set networks
       then \<exists>cts. info n = Inr (Some cts) \<and> (\<exists>ct \<in> set cts. runtime_ipv6_address ct = (a, True))
       else a \<in> source_addresses (active_ip_sources st) (docker_ip_source n))) \<and>
    source_addresses (active_ip_sources st') (''cni:'' @ dir) =
      source_addresses (active_ip_sources st) (''cni:'' @ dir) \<and>
    (r = None \<longleftrightarrow> (\<forall>n \<in> set networks. \<exists>cts. info n = Inr (Some cts)))"
proof -
  note laws = docker_refresh_mirrors [OF assms]
  have "a \<in> network_addresses info n \<longleftrightarrow>
      (\<exists>cts. info n = Inr (Some cts) \<and> (\<exists>ct \<in> set cts. runtime_ipv6_address ct = (a, True)))"
    by (auto simp: network_addresses_def accepted_container_addresses split: sum.splits option.splits)
  moreover have "''cni:'' @ dir \<notin> range docker_ip_source" by (auto simp: docker_ip_source_def)
  ultimately show ?thesis using laws by (simp add: network_ok_def list_all_iff)
qed

definition sample_info :: network_info where
  "sample_info n =
     (if n = ''web'' then Inr (Some [''2001:db8::5/64'', '''', ''10.0.0.2/24'', ''2001:db8::6''])
      else Inl (Environment ''no such network''))"

theorem docker_refresh_mirrors_containers_witness:
  "IP6 0x20010db8000000000000000000000006 [] \<in> source_addresses (active_ip_sources (snd
     (docker_refresh_configured_networks ref_ipset ''linux'' sorted_order sample_info [''web'', ''gone'']
       (init_active ref_ipset)))) (docker_ip_source ''web'')"
proof -
  let ?r = "docker_refresh_configured_networks ref_ipset ''linux'' sorted_order sample_info
    [''web'', ''gone''] (init_active ref_ipset)"
  have "runtime_ipv6_address ''2001:db8::6'' = (IP6 0x20010db8000000000000000000000006 [], True)"
    by code_simp
  then show ?thesis
    using docker_refresh_mirrors_containers [of ref_ipset "''linux''" sorted_order sample_info
        "[''web'', ''gone'']" "init_active ref_ipset" "fst ?r" "snd ?r" _ "''web''"]
    by (simp add: sample_info_def)
qed

text \<open>C32: the event loop of the collector. In every state it can reach, one listener is registered
  with the client and one ticker runs exactly while it listens, and neither otherwise, so a
  reconnection or a return leaks nothing; the address store keeps its invariant. It returns only
  when the context is cancelled and then does nothing more; in every other state the context can
  be cancelled, and with a cancelled context the loop can return at once.\<close>

theorem docker_loop_owns_its_listener:
  assumes "(docker_step api goos networks)\<^sup>*\<^sup>* (docker_start st) d" "active_inv st"
  shows "dk_listeners d = (if dk_pc d = Listening then 1 else 0) \<and> dk_tickers d = dk_listeners d \<and>
    active_inv (dk_active d) \<and>
    (if dk_pc d = Returned then dk_cancelled d \<and> (\<forall>d'. \<not> docker_step api goos networks d d')
     else (dk_cancelled d \<or> docker_step api goos networks d (d\<lparr>dk_cancelled := True\<rparr>)) \<and>
       (\<exists>d'. docker_step api goos networks (d\<lparr>dk_cancelled := True\<rparr>) d' \<and> dk_pc d' = Returned))"
proof -
  have "docker_inv d"
    using assms(1)
    by (induction rule: rtranclp_induct) (auto intro: docker_step_inv docker_start_inv assms(2))
  then show ?thesis
    using docker_returned_final [of api goos networks d]
      docker_cancel_returns [of "d\<lparr>dk_cancelled := True\<rparr>" api goos networks]
    by (auto simp: docker_inv_def intro: docker_step.context_cancelled)
qed

theorem docker_loop_owns_its_listener_witness:
  "\<exists>d. (docker_step ref_ipset ''linux'' [''web''])\<^sup>*\<^sup>* (docker_start (init_active ref_ipset)) d \<and>
     dk_pc d = Listening \<and> dk_listeners d = 1"
proof -
  let ?st = "init_active ref_ipset"
  obtain r st' where s: "docker_refresh_configured_networks ref_ipset ''linux'' sorted_order sample_info
      [''web''] ?st = (r, st')" by force
  let ?d = "docker_start ?st"
  let ?d' = "?d\<lparr>dk_pc := Listening, dk_listeners := Suc (dk_listeners ?d),
    dk_tickers := Suc (dk_tickers ?d), dk_active := st'\<rparr>"
  have "docker_step ref_ipset ''linux'' [''web''] ?d ?d'"
    using so.map_order_axioms s by (intro head_subscribed) (simp_all add: docker_start_def)
  then have run: "(docker_step ref_ipset ''linux'' [''web''])\<^sup>*\<^sup>* ?d ?d'" by blast
  then show ?thesis
    using docker_loop_owns_its_listener [OF run init_active_inv] by (intro exI [of _ ?d']) simp
qed

end
