(* ===== verification/Cni.thy ===== *)
theory Cni
  imports Active_Ips Netip_Text
begin

text \<open>
  \<open>cni.go\<close>: the lease directories of CNI's host-local plugin, with the parts of Go's
  \<open>path/filepath\<close> (Unix) that build their paths.
\<close>

section \<open>Paths\<close>

definition is_abs :: "string \<Rightarrow> bool" where
  "is_abs p \<longleftrightarrow> has_prefix p ''/''"

text \<open>
  \<open>filepath.Clean\<close> over the components of the path: the stack holds the components of the result
  so far. A parent component removes the last one unless that is a parent component too, which
  only a relative path keeps.
\<close>

definition clean_step :: "bool \<Rightarrow> string list \<Rightarrow> string \<Rightarrow> string list" where
  "clean_step rooted stack c =
     (if c = [] \<or> c = ''.'' then stack
      else if c = ''..'' then
        if stack \<noteq> [] \<and> last stack \<noteq> ''..'' then butlast stack
        else if rooted then stack
        else stack @ [c]
      else stack @ [c])"

definition clean_parts :: "string \<Rightarrow> string list" where
  "clean_parts p = foldl (clean_step (is_abs p)) [] (split_on CHR ''/'' p)"

definition clean_path :: "string \<Rightarrow> string" where
  "clean_path p =
     (if p = [] then ''.''
      else if is_abs p then CHR ''/'' # str_join (clean_parts p) ''/''
      else if clean_parts p = [] then ''.''
      else str_join (clean_parts p) ''/'')"

definition join_path :: "string \<Rightarrow> string \<Rightarrow> string" where
  "join_path a b =
     (if a \<noteq> [] then clean_path (str_join [a, b] ''/'')
      else if b \<noteq> [] then clean_path b
      else [])"

definition path_base :: "string \<Rightarrow> string" where
  "path_base p =
     (if p = [] then ''.''
      else
        let q = rev (dropWhile (\<lambda>c. c = CHR ''/'') (rev p));
            r = rev (takeWhile (\<lambda>c. c \<noteq> CHR ''/'') (rev q))
        in if r = [] then ''/'' else r)"

section \<open>Lease directories\<close>

definition default_cni_data_dir :: string where
  "default_cni_data_dir = ''/var/lib/cni/networks''"

definition cni_network_dir :: "string \<Rightarrow> string \<Rightarrow> error + string" where
  "cni_network_dir data_dir network =
     (let network = trim_space network in
        if network = [] then Inl (Errorf ''CNI network name cannot be empty'' [] None)
        else if is_abs network then Inr (clean_path network)
        else if path_base network \<noteq> network \<or> network = ''.'' \<or> network = ''..'' then
          Inl (Errorf ''invalid CNI network name %q'' [network] None)
        else Inr (join_path data_dir network))"

fun cni_lease_directories_loop ::
  "string \<Rightarrow> string list \<Rightarrow> string list \<Rightarrow> error + string list"
where
  "cni_lease_directories_loop data_dir dirs [] = Inr dirs"
| "cni_lease_directories_loop data_dir dirs (network # networks) =
     (case cni_network_dir data_dir network of
        Inl e \<Rightarrow> Inl e
      | Inr dir \<Rightarrow>
          cni_lease_directories_loop data_dir
            (if dir \<in> set dirs then dirs else dirs @ [dir]) networks)"

definition cni_lease_directories :: "string list \<Rightarrow> string \<Rightarrow> error + string list" where
  "cni_lease_directories networks data_dir =
     (if networks = [] then Inr []
      else
        let data_dir = trim_space data_dir;
            data_dir = (if data_dir = [] then default_cni_data_dir else data_dir)
        in cni_lease_directories_loop data_dir [] networks)"

section \<open>Leases\<close>

text \<open>What \<open>os.ReadDir\<close> gives: names and whether they are directories, sorted by name.\<close>

datatype dir_result =
    DirMissing
  | DirError string
  | Entries "(string \<times> bool) list"

fun lease_addresses :: "(string \<times> bool) list \<Rightarrow> addr list" where
  "lease_addresses [] = []"
| "lease_addresses ((name, is_dir) # entries) =
     (if is_dir then lease_addresses entries
      else case parse_addr name of
        Some address \<Rightarrow>
          if is6 address then unmap address # lease_addresses entries
          else lease_addresses entries
      | None \<Rightarrow> lease_addresses entries)"

definition read_cni_lease_addresses :: "dir_result \<Rightarrow> error + addr list" where
  "read_cni_lease_addresses r =
     (case r of
        DirMissing \<Rightarrow> Inr []
      | DirError m \<Rightarrow> Inl (Environment m)
      | Entries es \<Rightarrow> Inr (lease_addresses es))"

definition cni_ip_source :: "string \<Rightarrow> string" where
  "cni_ip_source dir = ''cni:'' @ dir"

definition cni_refresh_network ::
  "('s, 'm) ipset_api_scheme \<Rightarrow> string \<Rightarrow> (nat \<Rightarrow> addr set \<Rightarrow> addr list) \<Rightarrow> (string \<Rightarrow> dir_result) \<Rightarrow>
   string \<Rightarrow> ('s, 'r) active_state_scheme \<Rightarrow> ('s, 'r) active_state_scheme"
where
  "cni_refresh_network api goos ord read_dir dir st =
     (case read_cni_lease_addresses (read_dir dir) of
        Inl e \<Rightarrow> replace_active_ip_source api goos ord (cni_ip_source dir) [] st
      | Inr addresses \<Rightarrow> replace_active_ip_source api goos ord (cni_ip_source dir) addresses st)"

definition cni_refresh_all ::
  "('s, 'm) ipset_api_scheme \<Rightarrow> string \<Rightarrow> (nat \<Rightarrow> addr set \<Rightarrow> addr list) \<Rightarrow> (string \<Rightarrow> dir_result) \<Rightarrow>
   string list \<Rightarrow> ('s, 'r) active_state_scheme \<Rightarrow> ('s, 'r) active_state_scheme"
where
  "cni_refresh_all api goos ord read_dir dirs st =
     fold (cni_refresh_network api goos ord read_dir) dirs st"

text \<open>\<open>cniListen\<close> refreshes every directory once and starts the loop on the directories.\<close>

definition cni_listen ::
  "('s, 'm) ipset_api_scheme \<Rightarrow> string \<Rightarrow> (nat \<Rightarrow> addr set \<Rightarrow> addr list) \<Rightarrow> (string \<Rightarrow> dir_result) \<Rightarrow>
   string list \<Rightarrow> string \<Rightarrow> ('s, 'r) active_state_scheme \<Rightarrow>
   (error + string list) \<times> ('s, 'r) active_state_scheme"
where
  "cni_listen api goos ord read_dir networks data_dir st =
     (case cni_lease_directories networks data_dir of
        Inl e \<Rightarrow> (Inl e, st)
      | Inr dirs \<Rightarrow> (Inr dirs, cni_refresh_all api goos ord read_dir dirs st))"

text \<open>\<open>cniRefreshLoop\<close>: it returns when the context is cancelled, a tick refreshes all directories.\<close>

datatype cni_event = CniCancelled | CniTick

fun cni_loop_step ::
  "('s, 'm) ipset_api_scheme \<Rightarrow> string \<Rightarrow> (nat \<Rightarrow> addr set \<Rightarrow> addr list) \<Rightarrow> (string \<Rightarrow> dir_result) \<Rightarrow>
   string list \<Rightarrow> cni_event \<Rightarrow> ('s, 'r) active_state_scheme \<Rightarrow> ('s, 'r) active_state_scheme option"
where
  "cni_loop_step api goos ord read_dir dirs CniCancelled st = None"
| "cni_loop_step api goos ord read_dir dirs CniTick st =
     Some (cni_refresh_all api goos ord read_dir dirs st)"

section \<open>Laws\<close>

text \<open>A name that is its own base has one component.\<close>

lemma path_base_no_slash:
  assumes "path_base n = n" "\<not> is_abs n"
  shows "CHR ''/'' \<notin> set n"
proof -
  let ?q = "rev (dropWhile (\<lambda>c. c = CHR ''/'') (rev n))"
  let ?r = "rev (takeWhile (\<lambda>c. c \<noteq> CHR ''/'') (rev ?q))"
  have "n \<noteq> ''/''" using assms(2) by (auto simp: is_abs_def has_prefix_def)
  then have "n = [] \<or> n = ''.'' \<or> n = ?r"
    using assms(1) by (auto simp: path_base_def Let_def split: if_splits)
  moreover have "CHR ''/'' \<notin> set ?r"
    by (auto dest: set_takeWhileD)
  moreover have "CHR ''/'' \<notin> set ''.''" by simp
  ultimately show ?thesis by (metis empty_iff list.set(1))
qed

lemma split_on_last: "sep \<notin> set b \<Longrightarrow> split_on sep (a @ sep # b) = split_on sep a @ [b]"
  by (induction a) (auto simp: split_on_no_sep split: list.splits)

lemma clean_parts_child:
  assumes "CHR ''/'' \<notin> set n" "n \<noteq> []" "n \<noteq> ''.''" "n \<noteq> ''..''" "d \<noteq> []"
  shows "clean_parts (d @ ''/'' @ n) = clean_parts d @ [n]"
proof -
  have "is_abs (d @ ''/'' @ n) = is_abs d"
    using assms(5) by (cases d) (auto simp: is_abs_def has_prefix_def)
  with assms show ?thesis
    by (simp add: clean_parts_def split_on_last clean_step_def)
qed

text \<open>The components of a clean path are proper names, or leading parent components.\<close>

definition proper_part :: "string \<Rightarrow> bool" where
  "proper_part c \<longleftrightarrow> c \<noteq> [] \<and> c \<noteq> ''.'' \<and> CHR ''/'' \<notin> set c"

lemma clean_step_proper:
  assumes "\<forall>c \<in> set stack. proper_part c" "CHR ''/'' \<notin> set x"
  shows "\<forall>c \<in> set (clean_step r stack x). proper_part c"
proof -
  have "\<forall>c \<in> set (butlast stack). proper_part c"
    using assms(1) by (meson in_set_butlastD)
  moreover have "proper_part x" if "x \<noteq> []" "x \<noteq> ''.''"
    using assms(2) that by (simp add: proper_part_def)
  ultimately show ?thesis using assms(1) unfolding clean_step_def by (simp add: proper_part_def)
qed

lemma clean_steps_proper:
  "\<forall>c \<in> set stack. proper_part c \<Longrightarrow> \<forall>c \<in> set cs. CHR ''/'' \<notin> set c \<Longrightarrow>
   \<forall>c \<in> set (foldl (clean_step r) stack cs). proper_part c"
proof (induction cs arbitrary: stack)
  case (Cons x cs)
  then show ?case using clean_step_proper [of stack x r] by simp
qed simp

lemma clean_parts_proper: "c \<in> set (clean_parts p) \<Longrightarrow> proper_part c"
  unfolding clean_parts_def
  using clean_steps_proper [of "[]" "split_on CHR ''/'' p" "is_abs p"] split_on_parts by auto

lemma str_join_proper:
  assumes "\<forall>c \<in> set cs. proper_part c" "cs \<noteq> []"
  shows "str_join cs ''/'' \<noteq> [] \<and> str_join cs ''/'' \<noteq> ''.'' \<and> str_join cs ''/'' \<noteq> ''/''"
proof (cases cs rule: list.exhaust)
  case (Cons x xs)
  with assms(1) have x: "x \<noteq> []" "x \<noteq> ''.''" "CHR ''/'' \<notin> set x" by (auto simp: proper_part_def)
  then obtain y ys where "x = y # ys" by (cases x) auto
  with x Cons show ?thesis by (cases xs) (auto simp: Cons_eq_append_conv)
qed (use assms in simp)

text \<open>The directory of a relative name is the entry of that name in the data directory.\<close>

definition child_path :: "string \<Rightarrow> string \<Rightarrow> string" where
  "child_path d n =
     (if d = ''.'' then n else if d = ''/'' then d @ n else d @ ''/'' @ n)"

lemma join_path_child:
  assumes "CHR ''/'' \<notin> set n" "n \<noteq> []" "n \<noteq> ''.''" "n \<noteq> ''..''" "d \<noteq> []"
  shows "join_path d n = child_path (clean_path d) n"
proof -
  have abs: "is_abs (d @ ''/'' @ n) = is_abs d"
    using assms(5) by (cases d) (auto simp: is_abs_def has_prefix_def)
  have parts: "clean_parts (d @ ''/'' @ n) = clean_parts d @ [n]"
    using assms by (rule clean_parts_child)
  show ?thesis
  proof (cases "clean_parts d = []")
    case True
    with assms(5) abs parts show ?thesis
      by (simp add: join_path_def clean_path_def child_path_def)
  next
    case False
    with clean_parts_proper have "str_join (clean_parts d) ''/'' \<noteq> []"
      "str_join (clean_parts d) ''/'' \<noteq> ''.''" "str_join (clean_parts d) ''/'' \<noteq> ''/''"
      using str_join_proper by blast+
    with False assms(5) abs parts show ?thesis
      by (simp add: join_path_def clean_path_def child_path_def str_join_snoc)
  qed
qed

text \<open>
  What a configured name denotes: an absolute path itself, cleaned; any other name a direct child
  of the data directory, whatever the name contains.
\<close>

lemma cni_network_dir_cases:
  assumes "cni_network_dir data_dir network = Inr dir" "data_dir \<noteq> []"
  shows "is_abs (trim_space network) \<and> dir = clean_path (trim_space network) \<or>
    CHR ''/'' \<notin> set (trim_space network) \<and> trim_space network \<notin> {[], ''.'', ''..''} \<and>
    dir = child_path (clean_path data_dir) (trim_space network)"
proof (cases "is_abs (trim_space network)")
  case True
  with assms show ?thesis by (auto simp: cni_network_dir_def Let_def split: if_splits)
next
  case False
  with assms(1) have n: "path_base (trim_space network) = trim_space network"
      "trim_space network \<noteq> []" "trim_space network \<noteq> ''.''" "trim_space network \<noteq> ''..''"
    and dir: "dir = join_path data_dir (trim_space network)"
    by (auto simp: cni_network_dir_def Let_def split: if_splits)
  from n(1) False have "CHR ''/'' \<notin> set (trim_space network)" by (rule path_base_no_slash)
  with n dir assms(2) show ?thesis by (simp add: join_path_child)
qed

lemma lease_loop_laws:
  "cni_lease_directories_loop d dirs networks = Inr ds \<Longrightarrow> distinct dirs \<Longrightarrow>
   distinct ds \<and> set ds = set dirs \<union> {dir. \<exists>n \<in> set networks. cni_network_dir d n = Inr dir} \<and>
   (\<forall>n \<in> set networks. is_ok (cni_network_dir d n))"
proof (induction d dirs networks rule: cni_lease_directories_loop.induct)
  case (2 d dirs n networks)
  from "2.prems" obtain dir where dir: "cni_network_dir d n = Inr dir"
    by (auto split: sum.splits)
  from "2.IH" [OF this] "2.prems" dir show ?case by (auto split: if_splits)
qed auto

lemma lease_loop_fails:
  "cni_lease_directories_loop d dirs networks = Inl e \<Longrightarrow>
   \<exists>n \<in> set networks. cni_network_dir d n = Inl e"
  by (induction d dirs networks rule: cni_lease_directories_loop.induct)
    (auto split: sum.splits if_splits)

definition effective_data_dir :: "string \<Rightarrow> string" where
  "effective_data_dir d = (if trim_space d = [] then default_cni_data_dir else trim_space d)"

lemma effective_data_dir_not_Nil [simp]: "effective_data_dir d \<noteq> []"
  by (simp add: effective_data_dir_def default_cni_data_dir_def)

lemma cni_lease_directories_eq:
  "networks \<noteq> [] \<Longrightarrow> cni_lease_directories networks d =
     cni_lease_directories_loop (effective_data_dir d) [] networks"
  by (simp add: cni_lease_directories_def effective_data_dir_def Let_def)

text \<open>A refresh replaces the source of the directory by its leases, by nothing when unreadable.\<close>

definition directory_addresses :: "dir_result \<Rightarrow> addr set" where
  "directory_addresses r =
     (case r of Entries es \<Rightarrow> accepted_addresses (lease_addresses es) | _ \<Rightarrow> {})"

lemma cni_refresh_sources:
  "active_ip_sources (cni_refresh_network api goos ord read_dir dir st) =
     AList.update (cni_ip_source dir) (directory_addresses (read_dir dir)) (active_ip_sources st)"
  by (auto simp: cni_refresh_network_def read_cni_lease_addresses_def directory_addresses_def
      replace_fields accepted_addresses_def split: dir_result.splits)

lemma cni_ip_source_inj [simp]: "cni_ip_source a = cni_ip_source b \<longleftrightarrow> a = b"
  by (simp add: cni_ip_source_def)

lemma cni_refresh_all_sources:
  "source_addresses (active_ip_sources (cni_refresh_all api goos ord read_dir dirs st)) s =
     (if s \<in> cni_ip_source ` set dirs then directory_addresses (read_dir (drop 4 s))
      else source_addresses (active_ip_sources st) s)"
proof (induction dirs arbitrary: st)
  case Nil
  then show ?case by (simp add: cni_refresh_all_def)
next
  case (Cons d dirs)
  have "drop 4 (cni_ip_source d) = d" by (simp add: cni_ip_source_def)
  with Cons.IH [of "cni_refresh_network api goos ord read_dir d st"] show ?case
    by (auto simp: cni_refresh_all_def cni_refresh_sources source_addresses_update)
qed

lemma accepted_lease_addresses:
  "accepted_addresses (lease_addresses es) =
     {b. \<exists>name a. (name, False) \<in> set es \<and> parse_addr name = Some a \<and> is6 a \<and>
        \<not> is4in6 a \<and> b = unmap a}"
proof -
  have "b \<in> set (lease_addresses es) \<longleftrightarrow>
      (\<exists>name a. (name, False) \<in> set es \<and> parse_addr name = Some a \<and> is6 a \<and> b = unmap a)" for b
    by (induction es rule: lease_addresses.induct) (auto split: option.splits)
  then have "b \<in> accepted_addresses (lease_addresses es) \<longleftrightarrow> is6 b \<and>
      (\<exists>name a. (name, False) \<in> set es \<and> parse_addr name = Some a \<and> is6 a \<and> b = unmap a)" for b
    unfolding accepted_addresses_iff by (metis is6_valid unmap_unmap)
  then show ?thesis by (auto simp: is6_unmap) blast+
qed

lemma cni_refresh_network_inv:
  "map_order ord \<Longrightarrow> active_inv st \<Longrightarrow>
   active_inv (cni_refresh_network api goos ord read_dir dir st)"
  by (auto simp: cni_refresh_network_def map_order.replace_active_inv split: sum.splits)

lemma cni_refresh_all_inv:
  "map_order ord \<Longrightarrow> active_inv st \<Longrightarrow> active_inv (cni_refresh_all api goos ord read_dir dirs st)"
  unfolding cni_refresh_all_def
  by (induction dirs arbitrary: st) (auto intro: cni_refresh_network_inv)

lemma cni_listen_inv:
  "map_order ord \<Longrightarrow> active_inv a \<Longrightarrow> active_inv (snd (cni_listen api goos ord rd ns dir a))"
  by (auto simp: cni_listen_def cni_refresh_all_inv split: sum.split)

section \<open>Properties\<close>

text \<open>C33: the directories the collector reads. When the configured names are accepted, every directory
  is either an absolute path the user wrote, cleaned, or the entry of that name directly below the
  data directory: a name with a slash, an empty name and the names of the directory itself and its
  parent are refused, so no relative name leaves the data directory. Each directory is listed once,
  and each accepted name has its directory.\<close>

theorem cni_directories_confined:
  assumes "cni_lease_directories networks data_dir = Inr dirs"
  shows "distinct dirs \<and>
    (\<forall>dir \<in> set dirs. \<exists>n \<in> trim_space ` set networks.
       is_abs n \<and> dir = clean_path n \<or>
       CHR ''/'' \<notin> set n \<and> n \<notin> {[], ''.'', ''..''} \<and>
       dir = child_path (clean_path (effective_data_dir data_dir)) n) \<and>
    (\<forall>n \<in> set networks. \<exists>dir \<in> set dirs. cni_network_dir (effective_data_dir data_dir) n = Inr dir)"
proof (cases "networks = []")
  case True
  with assms show ?thesis by (simp add: cni_lease_directories_def)
next
  case False
  let ?d = "effective_data_dir data_dir"
  have dirs: "set dirs = {dir. \<exists>n \<in> set networks. cni_network_dir ?d n = Inr dir}"
    and laws: "distinct dirs" "\<forall>n \<in> set networks. is_ok (cni_network_dir ?d n)"
    using lease_loop_laws [of ?d "[]" networks dirs] assms cni_lease_directories_eq [OF False] by auto
  have "\<exists>dir \<in> set dirs. cni_network_dir ?d n = Inr dir" if "n \<in> set networks" for n
    using laws(2) that dirs by (fastforce simp: is_ok_def split: sum.splits)
  moreover have "\<exists>n \<in> trim_space ` set networks. is_abs n \<and> dir = clean_path n \<or>
       CHR ''/'' \<notin> set n \<and> n \<notin> {[], ''.'', ''..''} \<and> dir = child_path (clean_path ?d) n"
    if "dir \<in> set dirs" for dir
  proof -
    from that dirs obtain n where "n \<in> set networks" "cni_network_dir ?d n = Inr dir" by auto
    with cni_network_dir_cases [of ?d n dir] show ?thesis
      by (intro bexI [of _ "trim_space n"]) simp_all
  qed
  ultimately show ?thesis using laws(1) by (intro conjI ballI)
qed

theorem cni_directories_confined_witness:
  "cni_lease_directories ['' podman '', ''/run/cni/../x'', ''podman''] '''' =
     Inr [''/var/lib/cni/networks/podman'', ''/run/x''] \<and>
   distinct [''/var/lib/cni/networks/podman'', ''/run/x'']"
proof -
  have dirs: "cni_lease_directories ['' podman '', ''/run/cni/../x'', ''podman''] '''' =
      Inr [''/var/lib/cni/networks/podman'', ''/run/x'']" by code_simp
  then show ?thesis using cni_directories_confined [OF dirs] by blast
qed

text \<open>C34: what a refresh of all lease directories leaves: each contributes the IPv6 addresses its
  plain files are named after, and nothing when it is missing or cannot be read; a directory that
  is not configured and the Docker sources are not touched.\<close>

theorem cni_refresh_mirrors_leases:
  "(a \<in> source_addresses (active_ip_sources (cni_refresh_all api goos ord read_dir dirs st))
       (cni_ip_source dir) \<longleftrightarrow>
    (if dir \<in> set dirs
     then \<exists>es name b. read_dir dir = Entries es \<and> (name, False) \<in> set es \<and> parse_addr name = Some b \<and>
       is6 b \<and> \<not> is4in6 b \<and> a = b
     else a \<in> source_addresses (active_ip_sources st) (cni_ip_source dir))) \<and>
   source_addresses (active_ip_sources (cni_refresh_all api goos ord read_dir dirs st))
       (''docker:'' @ n) =
     source_addresses (active_ip_sources st) (''docker:'' @ n)"
proof -
  have drop: "drop 4 (cni_ip_source dir) = dir" by (simp add: cni_ip_source_def)
  have "cni_ip_source dir \<in> cni_ip_source ` set dirs \<longleftrightarrow> dir \<in> set dirs" by auto
  moreover have "''docker:'' @ n \<notin> cni_ip_source ` set dirs" by (auto simp: cni_ip_source_def)
  ultimately show ?thesis
    by (auto simp: cni_refresh_all_sources drop directory_addresses_def accepted_lease_addresses
        unmap_id split: dir_result.splits)
qed

end
