(* ===== verification/Readiness.thy ===== *)
theory Readiness
  imports GoStrings
begin

text \<open>
  \<open>readiness.go\<close>: the marker file that tells a supervisor the responder is ready. The file
  system is a map from paths to contents; what a call of \<open>os.WriteFile\<close> does is chosen by the
  environment: it succeeds, fails to open the file, or fails after truncating it and writing a
  part of the data.
\<close>

type_synonym files = "string \<Rightarrow> string option"

datatype write_outcome = WriteOk | OpenFails string | ShortWrite nat string

fun write_file :: "write_outcome \<Rightarrow> string \<Rightarrow> string \<Rightarrow> files \<Rightarrow> error option \<times> files" where
  "write_file WriteOk path data fs = (None, fs(path \<mapsto> data))"
| "write_file (OpenFails m) path data fs = (Some (Environment m), fs)"
| "write_file (ShortWrite n m) path data fs = (Some (Environment m), fs(path \<mapsto> take n data))"

definition clear_responder_ready_file ::
  "write_outcome \<Rightarrow> string \<Rightarrow> files \<Rightarrow> error option \<times> files"
where
  "clear_responder_ready_file w ready fs =
     (if ready = [] then (None, fs)
      else case write_file w ready [] fs of
        (Some e, fs') \<Rightarrow> (Some (Errorf ''clear responder ready file %q: %w'' [ready] (Some e)), fs')
      | (None, fs') \<Rightarrow> (None, fs'))"

definition mark_responder_ready ::
  "write_outcome \<Rightarrow> string \<Rightarrow> string \<Rightarrow> files \<Rightarrow> error option \<times> files"
where
  "mark_responder_ready w ready ifname fs =
     (if ready = [] then (None, fs)
      else let ifname = trim_space ifname in
        if ifname = [] then
          (Some (Errorf ''mark responder ready: selected interface is empty'' [] None), fs)
        else case write_file w ready (ifname @ [CHR 0x0A]) fs of
          (Some e, fs') \<Rightarrow> (Some (Errorf ''write responder ready file %q: %w'' [ready] (Some e)), fs')
        | (None, fs') \<Rightarrow> (None, fs'))"

text \<open>A supervisor takes the responder for ready when the marker has a non-empty content.\<close>

definition signals_ready :: "string \<Rightarrow> files \<Rightarrow> bool" where
  "signals_ready ready fs \<longleftrightarrow> (case fs ready of None \<Rightarrow> False | Some c \<Rightarrow> c \<noteq> [])"

lemma clear_ready_ok:
  "clear_responder_ready_file w ready fs = (None, fs') \<Longrightarrow> ready \<noteq> [] \<Longrightarrow> fs' = fs(ready \<mapsto> [])"
  by (cases w) (auto simp: clear_responder_ready_file_def)

lemma clear_ready_not_signalled:
  "clear_responder_ready_file w ready fs = (None, fs') \<Longrightarrow> ready \<noteq> [] \<Longrightarrow> \<not> signals_ready ready fs'"
  by (auto dest: clear_ready_ok simp: signals_ready_def)

lemma clear_ready_no_file: "clear_responder_ready_file w [] fs = (None, fs)"
  by (simp add: clear_responder_ready_file_def)

lemma clear_ready_frame:
  "clear_responder_ready_file w ready fs = (r, fs') \<Longrightarrow> p \<noteq> ready \<Longrightarrow> fs' p = fs p"
  by (cases w) (auto simp: clear_responder_ready_file_def split: if_splits)

text \<open>
  Even a failing clear never makes a file look ready that did not before, since nothing of an
  empty content can be written.
\<close>

lemma clear_ready_never_signals:
  "clear_responder_ready_file w ready fs = (r, fs') \<Longrightarrow> \<not> signals_ready p fs \<Longrightarrow>
   \<not> signals_ready p fs'"
  by (cases w) (auto simp: clear_responder_ready_file_def signals_ready_def split: if_splits)

lemma mark_ready_ok:
  "mark_responder_ready w ready ifname fs = (None, fs') \<Longrightarrow> ready \<noteq> [] \<Longrightarrow>
   trim_space ifname \<noteq> [] \<and> fs' = fs(ready \<mapsto> trim_space ifname @ [CHR 0x0A])"
  by (cases w) (auto simp: mark_responder_ready_def Let_def split: if_splits)

lemma mark_ready_frame:
  "mark_responder_ready w ready ifname fs = (r, fs') \<Longrightarrow> p \<noteq> ready \<Longrightarrow> fs' p = fs p"
  by (cases w) (auto simp: mark_responder_ready_def Let_def split: if_splits)

end
