(* ===== verification/Runtime_Linux.thy ===== *)
theory Runtime_Linux
  imports Announce Docker Cni Readiness
begin

text \<open>
  \<open>runResponder\<close> of \<open>runtime_linux.go\<close> as a state machine. Each step is one stretch of the code
  between two points where other goroutines can act: the stretches of the start-up in their order,
  one step per branch of the \<open>select\<close> of the main loop, and the steps of the goroutines it runs
  beside: the capture, the Docker event loop and the CNI refresh loop, which only write to their
  channels and to the address store, and the cancellation of the context.
\<close>

record 's config =
  cf_api :: "'s ipset_api"
  cf_ser :: serializer
  cf_decode :: "bytes \<Rightarrow> error + decoded"
  cf_packet :: packet_env
  cf_candidates :: "candidate list"
  cf_docker :: "string list"
  cf_cni :: "string list"
  cf_cni_dir :: string
  cf_ready :: string

datatype responder_pc =
    Starting | Cleared | HandleOpen | DockerUp | CniUp | Announced | Running
  | Stopped "error option" | Crashed error

record 's responder =
  rs_pc :: responder_pc
  rs_rt :: "runtime option"
  rs_static :: "'s static_state"
  rs_active :: "'s active_state"
  rs_files :: files
  rs_handles :: handle_world
  rs_wire :: wire
  rs_capture :: capture
  rs_announced :: "addr set"
  rs_cancelled :: bool

section \<open>Start-up and shutdown\<close>

text \<open>The deferred calls: closing the handle, then clearing the ready file, whose error is only logged.\<close>

definition stop_responder :: "'s config \<Rightarrow> write_outcome \<Rightarrow> error option \<Rightarrow> 's responder \<Rightarrow> 's responder" where
  "stop_responder cfg wo r st =
     st\<lparr>rs_handles := (case rs_rt st of
            None \<Rightarrow> rs_handles st
          | Some rt \<Rightarrow> (case rt_handle rt of None \<Rightarrow> rs_handles st | Some h \<Rightarrow> close_handle h (rs_handles st))),
        rs_files := snd (clear_responder_ready_file wo (cf_ready cfg) (rs_files st)),
        rs_pc := Stopped r\<rparr>"

definition start_clear :: "'s config \<Rightarrow> write_outcome \<Rightarrow> 's responder \<Rightarrow> 's responder" where
  "start_clear cfg wo st =
     (case clear_responder_ready_file wo (cf_ready cfg) (rs_files st) of
        (Some e, fs) \<Rightarrow> st\<lparr>rs_files := fs, rs_pc := Stopped (Some e)\<rparr>
      | (None, fs) \<Rightarrow> st\<lparr>rs_files := fs, rs_pc := Cleared\<rparr>)"

definition start_prepare :: "'s config \<Rightarrow> write_outcome \<Rightarrow> 's responder \<Rightarrow> 's responder" where
  "start_prepare cfg wo st =
     (case prepare_responder (cf_packet cfg) (cf_candidates cfg) (rs_handles st) of
        (Inl e, w) \<Rightarrow>
          if is_panic e then st\<lparr>rs_handles := w, rs_pc := Crashed e\<rparr>
          else stop_responder cfg wo (Some e) (st\<lparr>rs_handles := w\<rparr>)
      | (Inr rt, w) \<Rightarrow> st\<lparr>rs_handles := w, rs_rt := Some rt, rs_pc := HandleOpen\<rparr>)"

definition start_docker ::
  "'s config \<Rightarrow> (nat \<Rightarrow> addr set \<Rightarrow> addr list) \<Rightarrow> network_info \<Rightarrow> error option \<Rightarrow> error option \<Rightarrow>
   write_outcome \<Rightarrow> 's responder \<Rightarrow> 's responder"
where
  "start_docker cfg ord info client ping wo st =
     (if cf_docker cfg = [] then st\<lparr>rs_pc := DockerUp\<rparr>
      else case docker_listen (cf_api cfg) ''linux'' ord info client ping (cf_docker cfg) (rs_active st) of
        (Some e, a) \<Rightarrow> stop_responder cfg wo (Some e) (st\<lparr>rs_active := a\<rparr>)
      | (None, a) \<Rightarrow> st\<lparr>rs_active := a, rs_pc := DockerUp\<rparr>)"

definition start_cni ::
  "'s config \<Rightarrow> (nat \<Rightarrow> addr set \<Rightarrow> addr list) \<Rightarrow> (string \<Rightarrow> dir_result) \<Rightarrow> write_outcome \<Rightarrow>
   's responder \<Rightarrow> 's responder"
where
  "start_cni cfg ord read_dir wo st =
     (if cf_cni cfg = [] then st\<lparr>rs_pc := CniUp\<rparr>
      else case cni_listen (cf_api cfg) ''linux'' ord read_dir (cf_cni cfg) (cf_cni_dir cfg) (rs_active st) of
        (Inl e, a) \<Rightarrow> stop_responder cfg wo (Some e) (st\<lparr>rs_active := a\<rparr>)
      | (Inr dirs, a) \<Rightarrow> st\<lparr>rs_active := a, rs_pc := CniUp\<rparr>)"

definition responder_info :: "'s responder \<Rightarrow> host_info" where
  "responder_info st = (case rs_rt st of None \<Rightarrow> \<lparr>host_mac = [], gateway_ip = NoAddr\<rparr> | Some rt \<Rightarrow> rt_hi rt)"

definition start_announce ::
  "'s config \<Rightarrow> (nat \<Rightarrow> addr set \<Rightarrow> addr list) \<Rightarrow> (nat \<Rightarrow> bytes \<Rightarrow> error option) \<Rightarrow>
   's responder \<Rightarrow> 's responder"
where
  "start_announce cfg ord net st =
     (let hi = responder_info st in
      case announce_static_targets ord (cf_ser cfg) net hi (current_static_targets (rs_static st)) {}
          (rs_wire st) of
        (announced, w) \<Rightarrow>
          st\<lparr>rs_capture := capture_start, rs_announced := announced,
             rs_wire := announce_runtime_startup (cf_ser cfg) net hi
               (active_address_snapshot ord (rs_active st)) w,
             rs_pc := Announced\<rparr>)"

definition start_ready :: "'s config \<Rightarrow> write_outcome \<Rightarrow> write_outcome \<Rightarrow> 's responder \<Rightarrow> 's responder" where
  "start_ready cfg wm wo st =
     (case mark_responder_ready wm (cf_ready cfg)
         (case rs_rt st of None \<Rightarrow> [] | Some rt \<Rightarrow> if_name (rt_netif rt)) (rs_files st) of
        (Some e, fs) \<Rightarrow> stop_responder cfg wo (Some e) (st\<lparr>rs_files := fs\<rparr>)
      | (None, fs) \<Rightarrow> st\<lparr>rs_files := fs, rs_pc := Running\<rparr>)"

section \<open>The main loop\<close>

definition on_target_update ::
  "'s config \<Rightarrow> (nat \<Rightarrow> addr set \<Rightarrow> addr list) \<Rightarrow> (nat \<Rightarrow> bytes \<Rightarrow> error option) \<Rightarrow>
   (string \<Rightarrow> open_result) \<Rightarrow> 's responder \<Rightarrow> 's responder"
where
  "on_target_update cfg ord net open st =
     (let static = reload_static_target_file (cf_api cfg) ''linux'' open (rs_static st) in
      case announce_static_targets ord (cf_ser cfg) net (responder_info st)
          (current_static_targets static) (rs_announced st) (rs_wire st) of
        (announced, w) \<Rightarrow> st\<lparr>rs_static := static, rs_announced := announced, rs_wire := w\<rparr>)"

text \<open>A receive from the capture channel: a queued solicitation, or the end of the channel.\<close>

definition on_solicitation ::
  "'s config \<Rightarrow> (nat \<Rightarrow> bytes \<Rightarrow> error option) \<Rightarrow> write_outcome \<Rightarrow> 's responder \<Rightarrow> 's responder"
where
  "on_solicitation cfg net wo st =
     (case cap_queue (rs_capture st) of
        ns # rest \<Rightarrow>
          st\<lparr>rs_capture := (rs_capture st)\<lparr>cap_queue := rest\<rparr>,
             rs_wire := handle_solicitation (cf_api cfg) (cf_ser cfg) net (responder_info st)
               (Some (active_ips (rs_active st))) (current_static_target_set (rs_static st)) ns (rs_wire st)\<rparr>
      | [] \<Rightarrow>
          if cap_closed (rs_capture st)
          then stop_responder cfg wo (solicitation_capture_stop_error (rs_cancelled st)) st
          else st)"

definition on_new_active_ip ::
  "'s config \<Rightarrow> (nat \<Rightarrow> bytes \<Rightarrow> error option) \<Rightarrow> bytes \<Rightarrow> 's responder \<Rightarrow> 's responder"
where
  "on_new_active_ip cfg net nonce st =
     (case new_active_ip (rs_active st) of
        [] \<Rightarrow> st
      | ip # rest \<Rightarrow>
          (case handle_new_active_ip (cf_ser cfg) net nonce (responder_info st) ip (rs_wire st) of
             (r, w) \<Rightarrow>
               st\<lparr>rs_active := (rs_active st)\<lparr>new_active_ip := rest\<rparr>, rs_wire := w,
                  rs_pc := (case r of None \<Rightarrow> rs_pc st | Some e \<Rightarrow> Crashed e)\<rparr>))"

section \<open>The step relation\<close>

definition capturing :: "responder_pc \<Rightarrow> bool" where
  "capturing pc \<longleftrightarrow> pc = Announced \<or> pc = Running \<or> (\<exists>r. pc = Stopped r)"

inductive responder_step :: "'s config \<Rightarrow> 's responder \<Rightarrow> 's responder \<Rightarrow> bool"
  for cfg :: "'s config"
where
  clear: "rs_pc st = Starting \<Longrightarrow> responder_step cfg st (start_clear cfg wo st)"
| prepare: "rs_pc st = Cleared \<Longrightarrow> responder_step cfg st (start_prepare cfg wo st)"
| docker: "rs_pc st = HandleOpen \<Longrightarrow> map_order ord \<Longrightarrow>
    responder_step cfg st (start_docker cfg ord info client ping wo st)"
| cni: "rs_pc st = DockerUp \<Longrightarrow> map_order ord \<Longrightarrow>
    responder_step cfg st (start_cni cfg ord read_dir wo st)"
| announce: "rs_pc st = CniUp \<Longrightarrow> map_order ord \<Longrightarrow>
    responder_step cfg st (start_announce cfg ord net st)"
| ready: "rs_pc st = Announced \<Longrightarrow> responder_step cfg st (start_ready cfg wm wo st)"
| cancelled: "rs_pc st = Running \<Longrightarrow> rs_cancelled st \<Longrightarrow>
    responder_step cfg st (stop_responder cfg wo None st)"
| target_update: "rs_pc st = Running \<Longrightarrow> static_target_file (rs_static st) \<noteq> [] \<Longrightarrow> map_order ord \<Longrightarrow>
    responder_step cfg st (on_target_update cfg ord net open st)"
| solicitation: "rs_pc st = Running \<Longrightarrow> responder_step cfg st (on_solicitation cfg net wo st)"
| new_ip: "rs_pc st = Running \<Longrightarrow> responder_step cfg st (on_new_active_ip cfg net nonce st)"
| env_cancel: "responder_step cfg st (st\<lparr>rs_cancelled := True\<rparr>)"
| env_capture: "capturing (rs_pc st) \<Longrightarrow> \<not> cap_closed (rs_capture st) \<Longrightarrow>
    responder_step cfg st (st\<lparr>rs_capture := capture_step (cf_decode cfg) r (rs_capture st)\<rparr>)"
| env_docker: "rs_pc st \<notin> {Starting, Cleared, HandleOpen} \<Longrightarrow> map_order ord \<Longrightarrow>
    responder_step cfg st (st\<lparr>rs_active := snd (docker_refresh_configured_networks (cf_api cfg) ''linux''
      ord info (cf_docker cfg) (rs_active st))\<rparr>)"
| env_cni: "rs_pc st \<notin> {Starting, Cleared, HandleOpen, DockerUp} \<Longrightarrow> map_order ord \<Longrightarrow>
    cni_lease_directories (cf_cni cfg) (cf_cni_dir cfg) = Inr dirs \<Longrightarrow>
    responder_step cfg st (st\<lparr>rs_active := cni_refresh_all (cf_api cfg) ''linux''
      ord read_dir dirs (rs_active st)\<rparr>)"

abbreviation responder_run :: "'s config \<Rightarrow> 's responder \<Rightarrow> 's responder \<Rightarrow> bool" where
  "responder_run cfg \<equiv> (responder_step cfg)\<^sup>*\<^sup>*"

section \<open>Invariants\<close>

text \<open>
  The packet handle: \<open>H\<close> are the handles open before the program started. One more is open from
  the moment an interface is selected until the program stops.
\<close>

fun stopped_pc :: "responder_pc \<Rightarrow> bool" where
  "stopped_pc (Stopped r) = True"
| "stopped_pc _ = False"

definition opened_pc :: "responder_pc \<Rightarrow> bool" where
  "opened_pc pc \<longleftrightarrow> pc \<noteq> Starting \<and> pc \<noteq> Cleared \<and> \<not> stopped_pc pc"

lemma opened_pc_simps [simp]:
  "opened_pc HandleOpen" "opened_pc DockerUp" "opened_pc CniUp" "opened_pc Announced" "opened_pc Running"
  "opened_pc (Crashed e)" "\<not> opened_pc Starting" "\<not> opened_pc Cleared" "\<not> opened_pc (Stopped r)"
  by (simp_all add: opened_pc_def)

definition handles_inv :: "nat set \<Rightarrow> 's responder \<Rightarrow> bool" where
  "handles_inv H st \<longleftrightarrow>
     (if opened_pc (rs_pc st)
      then \<exists>rt h. rs_rt st = Some rt \<and> rt_handle rt = Some h \<and> h \<notin> H \<and>
        hw_open (rs_handles st) = insert h H
      else hw_open (rs_handles st) = H \<and>
        (\<not> stopped_pc (rs_pc st) \<longrightarrow> rs_rt st = None \<and> world_ok (rs_handles st)))"

lemma start_prepare_eq:
  "start_prepare cfg wo st =
     (case prepare_responder (cf_packet cfg) (cf_candidates cfg) (rs_handles st) of
        (Inl e, w) \<Rightarrow> stop_responder cfg wo (Some e) (st\<lparr>rs_handles := w\<rparr>)
      | (Inr rt, w) \<Rightarrow> st\<lparr>rs_handles := w, rs_rt := Some rt, rs_pc := HandleOpen\<rparr>)"
  by (auto simp: start_prepare_def dest: prepare_no_panic split: prod.split sum.split)

lemmas responder_defs = stop_responder_def start_clear_def start_prepare_eq start_docker_def
  start_cni_def start_announce_def start_ready_def on_target_update_def on_solicitation_def
  on_new_active_ip_def

lemma stop_pc [simp]: "rs_pc (stop_responder cfg wo r st) = Stopped r"
  by (simp add: stop_responder_def)

lemma stop_handles:
  assumes "handles_inv H st" "opened_pc (rs_pc st) \<or> rs_rt st = None"
  shows "handles_inv H (stop_responder cfg wo r st)"
  using assms by (cases "rs_rt st") (auto simp: handles_inv_def stop_responder_def close_handle_def split: if_splits)

text \<open>An update that leaves the handles alone and stays on the same side keeps the invariant.\<close>

lemma handles_inv_frame:
  "handles_inv H st \<Longrightarrow> opened_pc (rs_pc st) \<Longrightarrow> opened_pc (rs_pc st') \<Longrightarrow> rs_rt st' = rs_rt st \<Longrightarrow>
   rs_handles st' = rs_handles st \<Longrightarrow> handles_inv H st'"
  by (simp add: handles_inv_def)

lemma handles_inv_same:
  "handles_inv H st \<Longrightarrow> rs_pc st' = rs_pc st \<Longrightarrow> rs_rt st' = rs_rt st \<Longrightarrow>
   rs_handles st' = rs_handles st \<Longrightarrow> handles_inv H st'"
  by (simp only: handles_inv_def)

lemma prepare_handles:
  assumes "rs_pc st = Cleared" "handles_inv H st"
  shows "handles_inv H (start_prepare cfg wo st)"
proof -
  from assms have st: "rs_rt st = None" "hw_open (rs_handles st) = H" "world_ok (rs_handles st)"
    by (simp_all add: handles_inv_def)
  obtain r w where p: "prepare_responder (cf_packet cfg) (cf_candidates cfg) (rs_handles st) = (r, w)"
    by force
  have sel: "selects (cf_packet cfg) (rs_handles st)
      (selected_candidate (cf_packet cfg) (cf_candidates cfg)) (r, w)"
    using prepare_responder_selects [OF st(3)] p by metis
  show ?thesis
  proof (cases r)
    case (Inl e)
    with sel st have "hw_open w = H" by (auto simp: selects_def split: option.splits)
    with Inl p st show ?thesis by (simp add: start_prepare_eq stop_responder_def handles_inv_def)
  next
    case (Inr rt)
    with sel st obtain h where "rt_handle rt = Some h" "h \<notin> H" "hw_open w = insert h H"
      by (auto simp: selects_def candidate_runtime_def is_ok_def split: option.splits)
    with Inr p st show ?thesis by (simp add: start_prepare_eq handles_inv_def)
  qed
qed

lemma step_handles: "responder_step cfg st st' \<Longrightarrow> handles_inv H st \<Longrightarrow> handles_inv H st'"
proof (induction rule: responder_step.induct)
  case (clear st wo)
  then show ?case
    by (auto simp: start_clear_def handles_inv_def split: prod.split option.split)
next
  case (prepare st wo)
  then show ?case by (rule prepare_handles)
next
  case (docker st ord info client ping wo)
  note keep = handles_inv_frame [OF docker(3)]
  show ?case
    using docker(1) by (auto simp: start_docker_def intro!: stop_handles keep split: prod.split option.split)
next
  case (cni st ord read_dir wo)
  note keep = handles_inv_frame [OF cni(3)]
  show ?case
    using cni(1) by (auto simp: start_cni_def intro!: stop_handles keep split: prod.split sum.split)
next
  case (announce st ord net)
  note keep = handles_inv_frame [OF announce(3)]
  show ?case
    using announce(1) by (auto simp: start_announce_def Let_def intro!: keep split: prod.split)
next
  case (ready st wm wo)
  note keep = handles_inv_frame [OF ready(2)]
  show ?case
    using ready(1) by (auto simp: start_ready_def intro!: stop_handles keep split: prod.split option.split)
next
  case (cancelled st wo)
  then show ?case by (intro stop_handles) simp_all
next
  case (target_update st ord net "open")
  note keep = handles_inv_same [OF target_update(4)]
  show ?case
    by (auto simp: on_target_update_def Let_def intro!: keep split: prod.split)
next
  case (solicitation st net wo)
  note keep = handles_inv_same [OF solicitation(2)]
  show ?case
    using solicitation by (auto simp: on_solicitation_def intro!: stop_handles keep split: list.split)
next
  case (new_ip st net nonce)
  note keep = handles_inv_frame [OF new_ip(2)]
  show ?case
    using new_ip by (auto simp: on_new_active_ip_def intro!: keep split: list.split prod.split option.split)
qed (auto elim!: handles_inv_same)

text \<open>
  The data: the target store and the address store keep their invariants, the capture queue its
  bound, and only current static hosts are remembered as announced.
\<close>

definition data_inv :: "'s config \<Rightarrow> 's responder \<Rightarrow> bool" where
  "data_inv cfg st \<longleftrightarrow>
     static_inv (cf_api cfg) (rs_static st) \<and> active_inv (rs_active st) \<and>
     length (cap_queue (rs_capture st)) \<le> 64 \<and>
     rs_announced st \<subseteq> static_hosts (static_targets (rs_static st))"

lemma stop_data [simp]: "data_inv cfg (stop_responder cfg wo r st) = data_inv cfg st"
  by (simp add: data_inv_def stop_responder_def)

lemma data_inv_frame:
  "data_inv cfg st \<Longrightarrow> rs_static st' = rs_static st \<Longrightarrow> active_inv (rs_active st') \<Longrightarrow>
   length (cap_queue (rs_capture st')) \<le> 64 \<Longrightarrow> rs_announced st' = rs_announced st \<Longrightarrow> data_inv cfg st'"
  by (simp add: data_inv_def)

lemma step_data: "responder_step cfg st st' \<Longrightarrow> data_inv cfg st \<Longrightarrow> data_inv cfg st'"
proof (induction rule: responder_step.induct)
  case (clear st wo)
  then show ?case by (auto simp: start_clear_def data_inv_def split: prod.split option.split)
next
  case (prepare st wo)
  then show ?case
    by (auto simp: start_prepare_eq data_inv_def stop_responder_def split: prod.split sum.split)
next
  case (docker st ord info client ping wo)
  then have "active_inv (snd (docker_listen (cf_api cfg) ''linux'' ord info client ping (cf_docker cfg) (rs_active st)))"
    by (intro docker_listen_inv) (simp_all add: data_inv_def)
  with docker show ?case
    by (auto simp: start_docker_def data_inv_def stop_responder_def split: prod.split option.split)
next
  case (cni st ord read_dir wo)
  then have "active_inv (snd (cni_listen (cf_api cfg) ''linux'' ord read_dir (cf_cni cfg) (cf_cni_dir cfg) (rs_active st)))"
    by (intro cni_listen_inv) (simp_all add: data_inv_def)
  with cni show ?case
    by (auto simp: start_cni_def data_inv_def stop_responder_def split: prod.split sum.split)
next
  case (announce st ord net)
  obtain A w where a: "announce_static_targets ord (cf_ser cfg) net (responder_info st)
      (static_targets (rs_static st)) {} (rs_wire st) = (A, w)" by force
  from map_order.announce_static_laws(1) [OF announce(2) a] announce(3) show ?case
    by (simp add: start_announce_def data_inv_def a capture_start_def current_static_targets_def)
next
  case (ready st wm wo)
  then show ?case
    by (auto simp: start_ready_def data_inv_def stop_responder_def split: prod.split option.split)
next
  case (target_update st ord net "open")
  let ?s = "reload_static_target_file (cf_api cfg) ''linux'' open (rs_static st)"
  obtain A w where a: "announce_static_targets ord (cf_ser cfg) net (responder_info st)
      (static_targets ?s) (rs_announced st) (rs_wire st) = (A, w)" by force
  from map_order.announce_static_laws(1) [OF target_update(3) a] target_update(4) show ?case
    by (simp add: on_target_update_def data_inv_def a current_static_targets_def reload_static_inv)
next
  case (solicitation st net wo)
  then show ?case by (auto simp: on_solicitation_def data_inv_def stop_responder_def split: list.split)
next
  case (new_ip st net nonce)
  then show ?case
    by (auto simp: on_new_active_ip_def data_inv_def active_inv_def split: list.split prod.split)
next
  case (env_capture st r)
  then show ?case by (simp add: data_inv_def capture_step_bound)
next
  case (env_docker st ord info)
  then show ?case by (simp add: data_inv_def map_order.docker_refresh_inv)
next
  case (env_cni st ord dirs read_dir)
  then show ?case by (simp add: data_inv_def cni_refresh_all_inv)
qed (simp_all add: data_inv_def stop_responder_def)

text \<open>
  The ready file: it does not signal while the program starts, and while the main loop runs it
  holds the name of the selected interface.
\<close>

definition preparing :: "responder_pc \<Rightarrow> bool" where
  "preparing pc \<longleftrightarrow> pc \<in> {Cleared, HandleOpen, DockerUp, CniUp, Announced}"

lemma preparing_simps [simp]:
  "preparing Cleared" "preparing HandleOpen" "preparing DockerUp" "preparing CniUp" "preparing Announced"
  "\<not> preparing Starting" "\<not> preparing Running" "\<not> preparing (Stopped r)" "\<not> preparing (Crashed e)"
  by (simp_all add: preparing_def)

definition ready_names :: "'s config \<Rightarrow> 's responder \<Rightarrow> bool" where
  "ready_names cfg st \<longleftrightarrow>
     (\<exists>rt. rs_rt st = Some rt \<and> trim_space (if_name (rt_netif rt)) \<noteq> [] \<and>
        rs_files st (cf_ready cfg) = Some (trim_space (if_name (rt_netif rt)) @ [CHR 0x0A]))"

definition ready_inv :: "'s config \<Rightarrow> 's responder \<Rightarrow> bool" where
  "ready_inv cfg st \<longleftrightarrow>
     (cf_ready cfg \<noteq> [] \<longrightarrow>
      (preparing (rs_pc st) \<longrightarrow> \<not> signals_ready (cf_ready cfg) (rs_files st)) \<and>
      (rs_pc st = Running \<longrightarrow> ready_names cfg st))"

lemma ready_inv_stop [simp]: "ready_inv cfg (stop_responder cfg wo r st)"
  by (simp add: ready_inv_def)

lemma ready_inv_prep:
  "ready_inv cfg st \<Longrightarrow> preparing (rs_pc st) \<Longrightarrow> rs_files st' = rs_files st \<Longrightarrow>
   rs_pc st' \<noteq> Running \<Longrightarrow> ready_inv cfg st'"
  by (simp add: ready_inv_def)

lemma ready_inv_same:
  "ready_inv cfg st \<Longrightarrow> rs_files st' = rs_files st \<Longrightarrow> rs_rt st' = rs_rt st \<Longrightarrow>
   rs_pc st' = rs_pc st \<Longrightarrow> ready_inv cfg st'"
  by (simp add: ready_inv_def ready_names_def)

lemma step_ready:
  "responder_step cfg st st' \<Longrightarrow> handles_inv H st \<Longrightarrow> ready_inv cfg st \<Longrightarrow> ready_inv cfg st'"
proof (induction rule: responder_step.induct)
  case (clear st wo)
  then show ?case
    by (auto simp: start_clear_def ready_inv_def dest: clear_ready_not_signalled split: prod.split option.split)
next
  case (prepare st wo)
  note keep = ready_inv_prep [OF prepare(3)]
  show ?case using prepare(1)
    by (auto simp: start_prepare_eq intro!: keep split: prod.split sum.split)
next
  case (docker st ord info client ping wo)
  note keep = ready_inv_prep [OF docker(4)]
  show ?case using docker(1)
    by (auto simp: start_docker_def intro!: keep split: prod.split option.split)
next
  case (cni st ord read_dir wo)
  note keep = ready_inv_prep [OF cni(4)]
  show ?case using cni(1)
    by (auto simp: start_cni_def intro!: keep split: prod.split sum.split)
next
  case (announce st ord net)
  note keep = ready_inv_prep [OF announce(4)]
  show ?case using announce(1)
    by (auto simp: start_announce_def Let_def intro!: keep split: prod.split)
next
  case (ready st wm wo)
  then obtain rt where rt: "rs_rt st = Some rt" by (auto simp: handles_inv_def)
  show ?case
    by (auto simp: start_ready_def rt ready_inv_def ready_names_def dest!: mark_ready_ok
        split: prod.split option.split)
next
  case (target_update st ord net "open")
  note keep = ready_inv_same [OF target_update(5)]
  show ?case by (auto simp: on_target_update_def Let_def intro!: keep split: prod.split)
next
  case (solicitation st net wo)
  note keep = ready_inv_same [OF solicitation(3)]
  show ?case by (auto simp: on_solicitation_def intro!: keep split: list.split)
next
  case (new_ip st net nonce)
  note keep = ready_inv_same [OF new_ip(3)]
  show ?case
  proof (cases "rs_pc (on_new_active_ip cfg net nonce st) = Running")
    case True
    then show ?thesis
      by (intro keep) (auto simp: on_new_active_ip_def new_ip split: list.splits prod.splits option.splits)
  next
    case False
    then have "\<not> preparing (rs_pc (on_new_active_ip cfg net nonce st))"
      using new_ip(1) by (auto simp: on_new_active_ip_def split: list.splits prod.splits option.splits)
    with False show ?thesis by (simp add: ready_inv_def)
  qed
qed (auto elim!: ready_inv_same)

section \<open>What is sent\<close>

text \<open>
  Why a frame is sent in a step from \<open>st\<close> to \<open>st'\<close>: it advertises a current static host that was
  not announced; it announces a public runtime address, taken from the snapshot at start-up or
  from the channel of new addresses; or it answers the oldest captured solicitation, whose target
  is covered by the static targets or is a public runtime address.
\<close>

definition justified :: "'s config \<Rightarrow> 's responder \<Rightarrow> 's responder \<Rightarrow> bytes \<Rightarrow> bool" where
  "justified cfg st st' bs \<longleftrightarrow>
     (\<exists>ip \<in> static_hosts (static_targets (rs_static st')) - rs_announced st.
        advert_for (cf_ser cfg) (responder_info st) ip bs) \<or>
     (\<exists>ip \<in> source_union (active_ip_sources (rs_active st)) \<union> set (new_active_ip (rs_active st)).
        runtime_address_needs_announcement ip \<and>
        (\<exists>nonce. update_for (cf_ser cfg) nonce (responder_info st) ip bs)) \<or>
     (\<exists>ns \<in> set (cap_queue (rs_capture st)).
        answer_for (cf_ser cfg) (responder_info st) ns bs \<and>
        (ips_contains (cf_api cfg) (active_ips (rs_active st)) (target_ip ns) \<and>
           runtime_address_needs_announcement (target_ip ns) \<or>
         (\<exists>s. target_subnets (rs_static st) = Some s \<and> ips_contains (cf_api cfg) s (target_ip ns))))"

lemma startup_adds:
  "adds (\<lambda>bs. \<exists>ip \<in> set ips. runtime_address_needs_announcement ip \<and> advert_for ser hi ip bs)
     w (announce_runtime_startup ser net hi ips w)"
proof (induction ips arbitrary: w)
  case Nil
  then show ?case by (simp add: announce_runtime_startup_def)
next
  case (Cons ip ips)
  let ?w = "if runtime_address_needs_announcement ip then snd (announce_address ser net hi ip w) else w"
  have "adds (\<lambda>bs. \<exists>ip \<in> set (ip # ips). runtime_address_needs_announcement ip \<and> advert_for ser hi ip bs) w ?w"
    by (auto intro: adds_mono [OF announce_address_adds])
  moreover have "adds (\<lambda>bs. \<exists>ip \<in> set (ip # ips). runtime_address_needs_announcement ip \<and> advert_for ser hi ip bs)
      ?w (announce_runtime_startup ser net hi ips ?w)"
    by (rule adds_mono [OF Cons.IH]) auto
  ultimately show ?case
    by (auto simp: announce_runtime_startup_def intro: adds_trans)
qed

lemma announce_sends:
  assumes "map_order ord" "data_inv cfg st" "rs_announced st = {}"
  shows "adds (justified cfg st (start_announce cfg ord net st)) (rs_wire st)
    (rs_wire (start_announce cfg ord net st))"
proof -
  let ?hi = "responder_info st"
  let ?st' = "start_announce cfg ord net st"
  obtain A w where a: "announce_static_targets ord (cf_ser cfg) net ?hi
      (static_targets (rs_static st)) {} (rs_wire st) = (A, w)" by force
  have wire: "rs_wire ?st' = announce_runtime_startup (cf_ser cfg) net ?hi
      (active_address_snapshot ord (rs_active st)) w" and stat: "rs_static ?st' = rs_static st"
    by (simp_all add: start_announce_def a current_static_targets_def)
  have snap: "set (active_address_snapshot ord (rs_active st)) = source_union (active_ip_sources (rs_active st))"
    using map_order.snapshot_laws(1) [OF assms(1)] assms(2) by (auto simp: data_inv_def)
  have "adds (justified cfg st ?st') (rs_wire st) w"
    using assms(3)
    by (intro adds_mono [OF map_order.announce_static_laws(2) [OF assms(1) a]])
      (auto simp: justified_def stat)
  moreover have "adds (justified cfg st ?st') w (rs_wire ?st')"
    unfolding wire by (rule adds_mono [OF startup_adds]) (auto simp: justified_def snap update_for_def)
  ultimately show ?thesis by (rule adds_trans)
qed

lemma target_update_sends:
  assumes "map_order ord"
  shows "adds (justified cfg st (on_target_update cfg ord net open st)) (rs_wire st)
    (rs_wire (on_target_update cfg ord net open st))"
proof -
  let ?st' = "on_target_update cfg ord net open st"
  let ?s = "reload_static_target_file (cf_api cfg) ''linux'' open (rs_static st)"
  obtain A w where a: "announce_static_targets ord (cf_ser cfg) net (responder_info st)
      (static_targets ?s) (rs_announced st) (rs_wire st) = (A, w)" by force
  have wire: "rs_wire ?st' = w" and stat: "rs_static ?st' = ?s"
    by (simp_all add: on_target_update_def a current_static_targets_def)
  show ?thesis unfolding wire
    by (rule adds_mono [OF map_order.announce_static_laws(2) [OF assms a]])
      (auto simp: justified_def stat)
qed

lemma solicitation_sends:
  "adds (justified cfg st (on_solicitation cfg net wo st)) (rs_wire st) (rs_wire (on_solicitation cfg net wo st))"
proof (cases "cap_queue (rs_capture st)")
  case Nil
  then show ?thesis by (simp add: on_solicitation_def stop_responder_def)
next
  case (Cons ns rest)
  have "adds (justified cfg st (on_solicitation cfg net wo st)) (rs_wire st)
      (handle_solicitation (cf_api cfg) (cf_ser cfg) net (responder_info st)
        (Some (active_ips (rs_active st))) (target_subnets (rs_static st)) ns (rs_wire st))"
    by (rule adds_mono [OF handle_solicitation_adds]) (auto simp: justified_def target_reason_iff Cons)
  then show ?thesis by (simp add: on_solicitation_def Cons current_static_target_set_def)
qed

lemma new_ip_sends:
  "adds (justified cfg st (on_new_active_ip cfg net nonce st)) (rs_wire st)
     (rs_wire (on_new_active_ip cfg net nonce st))"
proof (cases "new_active_ip (rs_active st)")
  case Nil
  then show ?thesis by (simp add: on_new_active_ip_def)
next
  case (Cons ip rest)
  have "adds (justified cfg st (on_new_active_ip cfg net nonce st)) (rs_wire st)
      (snd (handle_new_active_ip (cf_ser cfg) net nonce (responder_info st) ip (rs_wire st)))"
    by (rule adds_mono [OF handle_new_adds]) (auto simp: justified_def Cons)
  then show ?thesis by (simp add: on_new_active_ip_def Cons split_beta)
qed

lemma step_sends:
  "responder_step cfg st st' \<Longrightarrow> data_inv cfg st \<Longrightarrow> rs_announced st = {} \<or> rs_pc st \<noteq> CniUp \<Longrightarrow>
   adds (justified cfg st st') (rs_wire st) (rs_wire st')"
proof (induction rule: responder_step.induct)
  case (clear st wo)
  then show ?case by (auto simp: start_clear_def split: prod.split option.split)
next
  case (prepare st wo)
  then show ?case by (auto simp: start_prepare_eq stop_responder_def split: prod.split sum.split)
next
  case (docker st ord info client ping wo)
  then show ?case by (auto simp: start_docker_def stop_responder_def split: prod.split option.split)
next
  case (cni st ord read_dir wo)
  then show ?case by (auto simp: start_cni_def stop_responder_def split: prod.split sum.split)
next
  case (announce st ord net)
  then show ?case by (intro announce_sends) simp_all
next
  case (ready st wm wo)
  then show ?case by (auto simp: start_ready_def stop_responder_def split: prod.split option.split)
next
  case (target_update st ord net "open")
  show ?case by (rule target_update_sends [OF target_update(3)])
next
  case (solicitation st net wo)
  show ?case by (rule solicitation_sends)
next
  case (new_ip st net nonce)
  show ?case by (rule new_ip_sends)
qed (simp_all add: stop_responder_def)

text \<open>Nothing counts as announced before the announcements.\<close>

fun early :: "responder_pc \<Rightarrow> bool" where
  "early Starting = True"
| "early Cleared = True"
| "early HandleOpen = True"
| "early DockerUp = True"
| "early CniUp = True"
| "early _ = False"

definition unannounced :: "'s responder \<Rightarrow> bool" where
  "unannounced st \<longleftrightarrow> (early (rs_pc st) \<longrightarrow> rs_announced st = {})"

lemma unannounced_stop [simp]: "unannounced (stop_responder cfg wo r st)"
  by (simp add: unannounced_def)

lemma unannounced_keep:
  "unannounced st \<Longrightarrow> early (rs_pc st) \<Longrightarrow> rs_announced st' = rs_announced st \<Longrightarrow> unannounced st'"
  by (simp add: unannounced_def)

lemma unannounced_late: "\<not> early (rs_pc st') \<Longrightarrow> unannounced st'"
  by (simp add: unannounced_def)

lemma step_unannounced: "responder_step cfg st st' \<Longrightarrow> unannounced st \<Longrightarrow> unannounced st'"
proof (induction rule: responder_step.induct)
  case (clear st wo)
  note keep = unannounced_keep [OF clear(2)]
  show ?case using clear(1)
    by (auto simp: start_clear_def intro!: keep split: prod.split option.split)
next
  case (prepare st wo)
  note keep = unannounced_keep [OF prepare(2)]
  show ?case using prepare(1) by (auto simp: start_prepare_eq intro!: keep split: prod.split sum.split)
next
  case (docker st ord info client ping wo)
  note keep = unannounced_keep [OF docker(3)]
  show ?case using docker(1) by (auto simp: start_docker_def intro!: keep split: prod.split option.split)
next
  case (cni st ord read_dir wo)
  note keep = unannounced_keep [OF cni(3)]
  show ?case using cni(1) by (auto simp: start_cni_def intro!: keep split: prod.split sum.split)
next
  case (announce st ord net)
  show ?case by (rule unannounced_late) (simp add: start_announce_def Let_def split: prod.split)
next
  case (ready st wm wo)
  show ?case by (rule unannounced_late) (simp add: start_ready_def split: prod.split option.split)
next
  case (target_update st ord net "open")
  then show ?case by (intro unannounced_late) (simp add: on_target_update_def Let_def split: prod.split)
next
  case (solicitation st net wo)
  then show ?case by (intro unannounced_late) (simp add: on_solicitation_def split: list.split)
next
  case (new_ip st net nonce)
  then show ?case
    by (intro unannounced_late) (simp add: on_new_active_ip_def split: list.split prod.split option.split)
qed (simp_all add: unannounced_def)

lemma step_sent: "responder_step cfg st st' \<Longrightarrow> data_inv cfg st \<Longrightarrow> unannounced st \<Longrightarrow>
   adds (justified cfg st st') (rs_wire st) (rs_wire st')"
  by (rule step_sends) (auto simp: unannounced_def)

section \<open>Runs\<close>

definition responder_start :: "nat set \<Rightarrow> 's config \<Rightarrow> 's responder \<Rightarrow> bool" where
  "responder_start H cfg st \<longleftrightarrow>
     rs_pc st = Starting \<and> rs_rt st = None \<and> static_inv (cf_api cfg) (rs_static st) \<and>
     active_inv (rs_active st) \<and> world_ok (rs_handles st) \<and> hw_open (rs_handles st) = H \<and>
     wr_sent (rs_wire st) = [] \<and> rs_capture st = capture_start \<and> rs_announced st = {}"

definition responder_inv :: "nat set \<Rightarrow> 's config \<Rightarrow> 's responder \<Rightarrow> bool" where
  "responder_inv H cfg st \<longleftrightarrow>
     handles_inv H st \<and> data_inv cfg st \<and> ready_inv cfg st \<and> unannounced st"

lemma start_inv: "responder_start H cfg st \<Longrightarrow> responder_inv H cfg st"
  by (simp add: responder_start_def responder_inv_def handles_inv_def data_inv_def ready_inv_def
      unannounced_def capture_start_def)

lemma step_inv: "responder_step cfg st st' \<Longrightarrow> responder_inv H cfg st \<Longrightarrow> responder_inv H cfg st'"
  unfolding responder_inv_def
  by (blast intro: step_handles step_data step_ready step_unannounced)

lemma responder_run_inv: "responder_run cfg st st' \<Longrightarrow> responder_inv H cfg st \<Longrightarrow> responder_inv H cfg st'"
  by (induction rule: rtranclp_induct) (auto intro: step_inv)

text \<open>Every frame of a run was sent in a step that justifies it.\<close>

lemma sent_in_run:
  assumes "R\<^sup>*\<^sup>* st st'" "\<And>s s'. R s s' \<Longrightarrow> responder_step cfg s s'" "responder_inv H cfg st"
    and "bs \<in> set (wr_sent (rs_wire st'))"
  shows "bs \<in> set (wr_sent (rs_wire st)) \<or>
    (\<exists>s s'. R\<^sup>*\<^sup>* st s \<and> R s s' \<and> R\<^sup>*\<^sup>* s' st' \<and> justified cfg s s' bs)"
  using assms(1,4)
proof (induction rule: rtranclp_induct)
  case base
  then show ?case by simp
next
  case (step y z)
  have "responder_run cfg st y"
    using step(1) by (rule rtranclp_mono [THEN predicate2D, rotated]) (use assms(2) in blast)
  then have "responder_inv H cfg y" using assms(3) by (rule responder_run_inv)
  with assms(2) [OF step(2)] have adds: "adds (justified cfg y z) (rs_wire y) (rs_wire z)"
    by (intro step_sent) (simp_all add: responder_inv_def)
  show ?case
  proof (cases "bs \<in> set (wr_sent (rs_wire y))")
    case True
    have last: "R\<^sup>*\<^sup>* s' z" if "R\<^sup>*\<^sup>* s' y" for s'
      using that step(2) by (rule rtranclp.rtrancl_into_rtrancl)
    from step(3) [OF True] show ?thesis by (blast intro: last)
  next
    case False
    with adds step(4) have "justified cfg y z bs" by (auto simp: adds_def list_all_iff)
    with step(1,2) show ?thesis by (blast intro: rtranclp.rtrancl_refl)
  qed
qed

text \<open>
  Runs in which the contents of the target file are given: \<open>files\<close> is what the file system gives at
  the reloads, so every step that changes the targets is a reload that finds one of them.
\<close>

definition observed_step ::
  "'s config \<Rightarrow> (string \<Rightarrow> open_result) set \<Rightarrow> 's responder \<Rightarrow> 's responder \<Rightarrow> bool"
where
  "observed_step cfg files st st' \<longleftrightarrow>
     responder_step cfg st st' \<and>
     (rs_static st' = rs_static st \<or> (\<exists>open \<in> files. \<exists>ord net. st' = on_target_update cfg ord net open st))"

lemma observed_responder_step: "observed_step cfg files st st' \<Longrightarrow> responder_step cfg st st'"
  by (simp add: observed_step_def)

lemma observed_is_run: "(observed_step cfg files)\<^sup>*\<^sup>* st st' \<Longrightarrow> responder_run cfg st st'"
  by (rule rtranclp_mono [THEN predicate2D, rotated]) (auto simp: observed_step_def)

lemma observed_more:
  "(observed_step cfg files)\<^sup>*\<^sup>* st st' \<Longrightarrow> (observed_step cfg (insert f files))\<^sup>*\<^sup>* st st'"
  by (rule rtranclp_mono [THEN predicate2D, rotated]) (auto simp: observed_step_def)

lemma stop_static [simp]: "rs_static (stop_responder cfg wo r st) = rs_static st"
  by (simp add: stop_responder_def)

text \<open>Every run is one of them, when any content can be found.\<close>

lemma run_is_observed: "responder_run cfg st st' \<Longrightarrow> (observed_step cfg UNIV)\<^sup>*\<^sup>* st st'"
proof (rule rtranclp_mono [THEN predicate2D, rotated], assumption, intro predicate2I)
  fix s s' assume "responder_step cfg s s'"
  moreover from this have "rs_static s' = rs_static s \<or> (\<exists>open ord net. s' = on_target_update cfg ord net open s)"
    by (induction rule: responder_step.induct)
      (auto simp: start_clear_def start_prepare_eq start_docker_def start_cni_def start_announce_def
        start_ready_def on_solicitation_def on_new_active_ip_def Let_def
        split: prod.split sum.split option.split list.split)
  ultimately show "observed_step cfg UNIV s s'" by (auto simp: observed_step_def)
qed

lemma observed_targets:
  assumes "(observed_step cfg files)\<^sup>*\<^sup>* st st'" "targets_from cli path files (rs_static st)"
  shows "targets_from cli path files (rs_static st')"
  using assms
proof (induction rule: rtranclp_induct)
  case (step y z)
  from step(2) consider "rs_static z = rs_static y"
    | "open" ord net where "open \<in> files" "z = on_target_update cfg ord net open y"
    by (auto simp: observed_step_def)
  then show ?case
    by cases (use step in \<open>auto simp: on_target_update_def Let_def reload_targets_from split: prod.split\<close>)
qed

section \<open>Crashes and stops\<close>

text \<open>The only code of the main loop that can panic builds frames.\<close>

fun crashed_pc :: "responder_pc \<Rightarrow> bool" where
  "crashed_pc (Crashed e) = True"
| "crashed_pc _ = False"

lemma step_no_crash:
  "responder_step cfg st st' \<Longrightarrow> never_panics (cf_ser cfg) \<Longrightarrow> \<not> crashed_pc (rs_pc st) \<Longrightarrow>
   \<not> crashed_pc (rs_pc st')"
proof (induction rule: responder_step.induct)
  case (new_ip st net nonce)
  show ?case
  proof (cases "new_active_ip (rs_active st)")
    case (Cons ip rest)
    have "fst (handle_new_active_ip (cf_ser cfg) net nonce (responder_info st) ip (rs_wire st)) = None"
      using new_ip(2) by (rule handle_new_no_panic)
    then show ?thesis
      using new_ip(1) Cons by (auto simp: on_new_active_ip_def split: prod.split)
  qed (simp add: on_new_active_ip_def new_ip)
next
  case (solicitation st net wo)
  then show ?case by (simp add: on_solicitation_def split: list.split)
qed (simp_all add: start_clear_def start_prepare_eq start_docker_def start_cni_def start_announce_def
  start_ready_def on_target_update_def Let_def split: prod.split sum.split option.split)

lemma stops_running:
  assumes "responder_step cfg st st'" "rs_pc st = Running" "rs_pc st' = Stopped r"
  shows "if rs_cancelled st then r = None
    else r = Some err_solicitation_capture_stopped \<and> cap_closed (rs_capture st) \<and> cap_queue (rs_capture st) = []"
  using assms
proof (cases rule: responder_step.cases)
  case (solicitation net wo)
  then show ?thesis
    using assms by (auto simp: on_solicitation_def solicitation_capture_stop_error_def split: list.splits if_splits)
next
  case (new_ip net nonce)
  then show ?thesis
    using assms by (auto simp: on_new_active_ip_def split: list.splits prod.splits option.splits)
qed (use assms in \<open>auto simp: on_target_update_def Let_def split: prod.splits\<close>)

section \<open>Properties\<close>

text \<open>The states of a start-up without container networks in which every call succeeds.\<close>

definition startup :: "'s config \<Rightarrow> 's responder \<Rightarrow> 's responder list" where
  "startup cfg st =
     (let s1 = start_clear cfg WriteOk st;
          s2 = start_prepare cfg WriteOk s1;
          s3 = start_docker cfg sorted_order (\<lambda>_. Inr None) None None WriteOk s2;
          s4 = start_cni cfg sorted_order (\<lambda>_. DirMissing) WriteOk s3;
          s5 = start_announce cfg sorted_order (\<lambda>_ _. None) s4
      in [st, s1, s2, s3, s4, s5, start_ready cfg WriteOk WriteOk s5])"

lemma start_static:
  "rs_static (start_clear cfg wo st) = rs_static st" "rs_static (start_prepare cfg wo st) = rs_static st"
  "rs_static (start_docker cfg ord info client ping wo st) = rs_static st"
  "rs_static (start_cni cfg ord read_dir wo st) = rs_static st"
  "rs_static (start_announce cfg ord net st) = rs_static st" "rs_static (start_ready cfg wm wo st) = rs_static st"
  by (auto simp: start_clear_def start_prepare_eq start_docker_def start_cni_def start_announce_def
      start_ready_def Let_def split: prod.split sum.split option.split)

lemma startup_observed:
  assumes "map rs_pc (startup cfg st) =
    [Starting, Cleared, HandleOpen, DockerUp, CniUp, Announced, Running]"
  shows "(observed_step cfg {})\<^sup>*\<^sup>* st (last (startup cfg st))"
proof -
  let ?s1 = "start_clear cfg WriteOk st"
  let ?s2 = "start_prepare cfg WriteOk ?s1"
  let ?s3 = "start_docker cfg sorted_order (\<lambda>_. Inr None) None None WriteOk ?s2"
  let ?s4 = "start_cni cfg sorted_order (\<lambda>_. DirMissing) WriteOk ?s3"
  let ?s5 = "start_announce cfg sorted_order (\<lambda>_ _. None) ?s4"
  let ?s6 = "start_ready cfg WriteOk WriteOk ?s5"
  have pc: "rs_pc st = Starting" "rs_pc ?s1 = Cleared" "rs_pc ?s2 = HandleOpen" "rs_pc ?s3 = DockerUp"
    "rs_pc ?s4 = CniUp" "rs_pc ?s5 = Announced"
    using assms by (simp_all add: startup_def Let_def)
  have "responder_step cfg st ?s1" "responder_step cfg ?s1 ?s2" "responder_step cfg ?s2 ?s3"
    "responder_step cfg ?s3 ?s4" "responder_step cfg ?s4 ?s5" "responder_step cfg ?s5 ?s6"
    by (rule clear [OF pc(1)], rule prepare [OF pc(2)], rule docker [OF pc(3) so.map_order_axioms],
        rule cni [OF pc(4) so.map_order_axioms], rule announce [OF pc(5) so.map_order_axioms],
        rule ready [OF pc(6)])
  then have steps: "observed_step cfg {} st ?s1" "observed_step cfg {} ?s1 ?s2" "observed_step cfg {} ?s2 ?s3"
    "observed_step cfg {} ?s3 ?s4" "observed_step cfg {} ?s4 ?s5" "observed_step cfg {} ?s5 ?s6"
    unfolding observed_step_def start_static by blast+
  have "(observed_step cfg {})\<^sup>*\<^sup>* st ?s3"
    using steps(1-3) by (meson rtranclp.rtrancl_into_rtrancl rtranclp.rtrancl_refl)
  then have "(observed_step cfg {})\<^sup>*\<^sup>* st ?s6" using steps(4-6) by (meson rtranclp.rtrancl_into_rtrancl)
  then show ?thesis by (simp add: startup_def Let_def)
qed

lemmas startup_run = startup_observed [THEN observed_is_run]

text \<open>A start of the program with one static target, up to its announcements.\<close>

definition sample_config :: "ipset_op list config" where
  "sample_config = \<lparr>cf_api = ref_ipset, cf_ser = (\<lambda>ls. Inr [1]), cf_decode = (\<lambda>_. Inl (Environment ''none'')),
     cf_packet = sample_packet, cf_candidates = sample_candidates, cf_docker = [], cf_cni = [],
     cf_cni_dir = [], cf_ready = ''/run/ready''\<rparr>"

definition sample_responder :: "ipset_op list responder" where
  "sample_responder = \<lparr>rs_pc = Starting, rs_rt = None,
     rs_static = \<lparr>target_subnets = Some (fst (build_target_set ref_ipset [\<lparr>pfx_addr = IP6 7 [], pfx_bits = 128\<rparr>])),
       static_targets = [\<lparr>pfx_addr = IP6 7 [], pfx_bits = 128\<rparr>], static_cli_targets = [],
       static_target_file = []\<rparr>,
     rs_active = init_active ref_ipset, rs_files = (\<lambda>_. Some ''eth9''),
     rs_handles = \<lparr>hw_next = 5, hw_open = {3}\<rparr>, rs_wire = \<lparr>wr_count = 0, wr_sent = []\<rparr>,
     rs_capture = capture_start, rs_announced = {}, rs_cancelled = False\<rparr>"

definition sample_running :: "ipset_op list responder" where
  "sample_running = last (startup sample_config sample_responder)"

lemma sample_start: "responder_start {3} sample_config sample_responder"
  by (simp add: responder_start_def sample_responder_def sample_config_def static_inv_def static_target_def
      init_active_inv world_ok_def)

lemma sample_facts:
  "wr_sent (rs_wire sample_running) = [[1]]" "rs_pc sample_running = Running"
  by code_simp+

lemma sample_run: "responder_run sample_config sample_responder sample_running"
  unfolding sample_running_def by (rule startup_run) code_simp

text \<open>C1: every frame the Linux responder sends has a reason. In every run from the start, whatever the
  kernel, the collectors, the target file and the network do and in whatever order, each frame on
  the wire was sent in a step that justifies it: the advertisement of a current static host not yet
  announced, the announcement of a public runtime address (from the snapshot at start-up or the channel of new addresses), or
  the answer to a captured solicitation whose target is a public runtime address or covered by the
  static targets. A ULA or link-local container address is never announced, and answered only
  when a static target covers it.\<close>

theorem every_frame_is_justified:
  assumes "responder_start H cfg st0" "responder_run cfg st0 st" "bs \<in> set (wr_sent (rs_wire st))"
  shows "\<exists>s s'. responder_run cfg st0 s \<and> responder_step cfg s s' \<and> responder_run cfg s' st \<and>
    ((\<exists>ip \<in> static_hosts (static_targets (rs_static s')) - rs_announced s.
        advert_for (cf_ser cfg) (responder_info s) ip bs) \<or>
     (\<exists>ip \<in> source_union (active_ip_sources (rs_active s)) \<union> set (new_active_ip (rs_active s)).
        runtime_address_needs_announcement ip \<and>
        (\<exists>nonce. update_for (cf_ser cfg) nonce (responder_info s) ip bs)) \<or>
     (\<exists>ns \<in> set (cap_queue (rs_capture s)).
        answer_for (cf_ser cfg) (responder_info s) ns bs \<and>
        (ips_contains (cf_api cfg) (active_ips (rs_active s)) (target_ip ns) \<and>
           runtime_address_needs_announcement (target_ip ns) \<or>
         (\<exists>ts. target_subnets (rs_static s) = Some ts \<and> ips_contains (cf_api cfg) ts (target_ip ns)))))"
proof -
  have "bs \<notin> set (wr_sent (rs_wire st0))" using assms(1) by (simp add: responder_start_def)
  with sent_in_run [OF assms(2) _ start_inv [OF assms(1)] assms(3)] show ?thesis
    by (simp only: justified_def) blast
qed

theorem every_frame_is_justified_witness:
  "\<exists>s s'. responder_step sample_config s s' \<and> responder_run sample_config s' sample_running"
  using every_frame_is_justified [OF sample_start sample_run, of "[1]"] sample_facts(1) by auto

text \<open>C2: the invariants of the Linux responder. In every state of a run the target store and the
  address store are consistent, the three channels stay within their buffers, only current static
  hosts count as announced, and exactly one packet handle of the program is open, the one of its
  runtime, from the moment an interface is selected until the program stops; before and after that
  none is, so no candidate and no failing start leaks a handle.\<close>

theorem responder_invariants:
  assumes "responder_start H cfg st0" "responder_run cfg st0 st"
  shows "static_inv (cf_api cfg) (rs_static st) \<and> active_inv (rs_active st) \<and>
    length (cap_queue (rs_capture st)) \<le> 64 \<and> length (new_active_ip (rs_active st)) \<le> 64 \<and>
    length (active_ips_changed (rs_active st)) \<le> 1 \<and>
    rs_announced st \<subseteq> static_hosts (static_targets (rs_static st)) \<and>
    (if rs_pc st \<in> {Starting, Cleared} \<union> range Stopped then hw_open (rs_handles st) = H
     else \<exists>rt h. rs_rt st = Some rt \<and> rt_handle rt = Some h \<and> h \<notin> H \<and> hw_open (rs_handles st) = insert h H)"
proof -
  have inv: "responder_inv H cfg st" using assms by (intro responder_run_inv [OF _ start_inv])
  have "opened_pc (rs_pc st) \<longleftrightarrow> rs_pc st \<notin> {Starting, Cleared} \<union> range Stopped"
    by (cases "rs_pc st") auto
  then show ?thesis
    using inv by (auto simp: responder_inv_def data_inv_def handles_inv_def active_inv_def split: if_splits)
qed

theorem responder_invariants_witness:
  "rs_announced sample_running \<subseteq> {IP6 7 []} \<and> hw_open (rs_handles sample_running) \<noteq> {3}"
proof -
  have "static_hosts (static_targets (rs_static sample_running)) = {IP6 7 []}" by code_simp
  moreover have "Running \<notin> range Stopped" by auto
  ultimately show ?thesis
    using responder_invariants [OF sample_start sample_run] sample_facts(2) by auto
qed

text \<open>C13: the ready file. When one is configured, no state of a run before the responder is ready
  shows the file with content, a marker of an earlier run included, and while the responder runs
  the file names the interface it runs on, so a supervisor that waits for content never takes a
  responder for ready that cannot answer yet.\<close>

theorem ready_file_tells_the_truth:
  assumes "responder_start H cfg st0" "responder_run cfg st0 st" "cf_ready cfg \<noteq> []"
  shows "(rs_pc st \<in> {Cleared, HandleOpen, DockerUp, CniUp, Announced} \<longrightarrow>
      \<not> signals_ready (cf_ready cfg) (rs_files st)) \<and>
    (rs_pc st = Running \<longrightarrow>
      (\<exists>rt. rs_rt st = Some rt \<and> trim_space (if_name (rt_netif rt)) \<noteq> [] \<and>
         rs_files st (cf_ready cfg) = Some (trim_space (if_name (rt_netif rt)) @ [CHR 0x0A])))"
proof -
  have "responder_inv H cfg st" using assms(1,2) by (intro responder_run_inv [OF _ start_inv])
  then show ?thesis
    using assms(3) by (auto simp: responder_inv_def ready_inv_def ready_names_def)
qed

theorem ready_file_tells_the_truth_witness:
  "\<exists>rt. rs_rt sample_running = Some rt \<and>
     rs_files sample_running ''/run/ready'' = Some (trim_space (if_name (rt_netif rt)) @ [CHR 0x0A])"
proof -
  have ready: "cf_ready sample_config = ''/run/ready''" by (simp add: sample_config_def)
  show ?thesis
    using ready_file_tells_the_truth [OF sample_start sample_run] sample_facts(2) by (auto simp: ready)
qed

text \<open>C14: how a running responder ends. Provided the serializer does not panic, no run reaches a
  panic, whatever addresses the collectors report and whatever gateway was found. A running responder stops only by cancellation,
  without an error, or because the capture ended and every captured solicitation was handled, which
  is an error; and once it is cancelled it can stop in one step, with its handle closed and, when the
  file can be written, the ready file emptied.\<close>

theorem responder_ends:
  assumes "responder_start H cfg st0" "responder_run cfg st0 st" "never_panics (cf_ser cfg)"
  shows "rs_pc st \<noteq> Crashed e \<and>
    (rs_pc st = Running \<longrightarrow>
      (\<forall>st' r. responder_step cfg st st' \<and> rs_pc st' = Stopped r \<longrightarrow>
         (if rs_cancelled st then r = None
          else r = Some err_solicitation_capture_stopped \<and> cap_closed (rs_capture st) \<and>
            cap_queue (rs_capture st) = [])) \<and>
      (rs_cancelled st \<longrightarrow>
         (\<exists>st'. responder_step cfg st st' \<and> rs_pc st' = Stopped None \<and> hw_open (rs_handles st') = H \<and>
            (cf_ready cfg \<noteq> [] \<longrightarrow> rs_files st' (cf_ready cfg) = Some []))))"
proof -
  have "\<not> crashed_pc (rs_pc st)"
    using assms(2)
    by (induction rule: rtranclp_induct)
      (use assms(1,3) step_no_crash in \<open>auto simp: responder_start_def\<close>)
  then have "rs_pc st \<noteq> Crashed e" by auto
  moreover have "\<exists>st'. responder_step cfg st st' \<and> rs_pc st' = Stopped None \<and> hw_open (rs_handles st') = H \<and>
      (cf_ready cfg \<noteq> [] \<longrightarrow> rs_files st' (cf_ready cfg) = Some [])"
    if "rs_pc st = Running" "rs_cancelled st"
  proof -
    let ?st' = "stop_responder cfg WriteOk None st"
    have step: "responder_step cfg st ?st'" using that by (rule cancelled)
    then have "handles_inv H ?st'"
      using assms(1,2) step_handles responder_run_inv start_inv by (metis responder_inv_def)
    then have "hw_open (rs_handles ?st') = H" by (simp add: handles_inv_def)
    moreover have "cf_ready cfg \<noteq> [] \<Longrightarrow> rs_files ?st' (cf_ready cfg) = Some []"
      by (simp add: stop_responder_def clear_responder_ready_file_def)
    ultimately show ?thesis using step stop_pc by blast
  qed
  ultimately show ?thesis using stops_running by blast
qed

theorem responder_ends_witness:
  "rs_pc (sample_running\<lparr>rs_cancelled := True\<rparr>) \<noteq> Crashed (Panic []) \<and>
   (\<exists>st'. responder_step sample_config (sample_running\<lparr>rs_cancelled := True\<rparr>) st' \<and> rs_pc st' = Stopped None)"
proof -
  let ?st = "sample_running\<lparr>rs_cancelled := True\<rparr>"
  have run: "responder_run sample_config sample_responder ?st"
    using sample_run env_cancel by (rule rtranclp.rtrancl_into_rtrancl)
  have ser: "never_panics (cf_ser sample_config)" by (simp add: never_panics_def sample_config_def)
  show ?thesis
    using responder_ends [OF sample_start run ser] sample_facts(2) by auto
qed

end
