(* ===== verification/Ndp_Proxy.thy ===== *)
theory Ndp_Proxy
  imports Netip_Roundtrip
begin

text \<open>
  \<open>ndp_proxy.go\<close>: reading the table that the BSD command \<open>ndp -an\<close> prints.
\<close>

record ndp_entry =
  ne_ifname :: string
  ne_proxy :: bool

definition is_letter :: "char \<Rightarrow> bool" where
  "is_letter c \<longleftrightarrow> CHR ''A'' \<le> c \<and> c \<le> CHR ''Z'' \<or> CHR ''a'' \<le> c \<and> c \<le> CHR ''z''"

definition is_ndp_proxy_flag :: "string \<Rightarrow> bool" where
  "is_ndp_proxy_flag field =
     (let letters = takeWhile is_letter field; rest = dropWhile is_letter field in
        if field = [] then False
        else if letters = [] then False
        else if \<not> list_all (\<lambda>r. r \<in> set ''RPWlp'') letters then False
        else if \<not> list_all is_digit rest then False
        else str_contains letters ''p'')"

definition ndp_line :: "string \<Rightarrow> (addr \<times> ndp_entry) option" where
  "ndp_line line =
     (let fields = str_fields line in
        if length fields < 3 then None
        else
          (case parse_addr (hd (split_on CHR ''%'' (fields ! 0))) of
             None \<Rightarrow> None
           | Some address \<Rightarrow>
               if \<not> is6 address then None
               else Some (unmap address,
                 \<lparr>ne_ifname = fields ! 2, ne_proxy = list_ex is_ndp_proxy_flag (drop 3 fields)\<rparr>)))"

definition ndp_entries :: "string \<Rightarrow> addr \<rightharpoonup> ndp_entry" where
  "ndp_entries output =
     foldl (\<lambda>entries line. case ndp_line line of None \<Rightarrow> entries | Some (a, e) \<Rightarrow> entries(a \<mapsto> e))
       Map.empty (split_on (CHR 0x0A) output)"

definition ndp_proxy_entry_exists :: "string \<Rightarrow> addr \<Rightarrow> string \<Rightarrow> bool" where
  "ndp_proxy_entry_exists output target ifname =
     (case ndp_entries output (unmap target) of
        None \<Rightarrow> False
      | Some entry \<Rightarrow> ne_proxy entry \<and> (ifname = [] \<or> ne_ifname entry = ifname))"

section \<open>Laws\<close>

lemma flag_letters: "r \<in> set ''RPWlp'' \<Longrightarrow> is_letter r" "is_digit r \<Longrightarrow> \<not> is_letter r"
proof -
  show "r \<in> set ''RPWlp'' \<Longrightarrow> is_letter r" by (auto simp: is_letter_def less_eq_char_def)
  have "(of_char CHR ''A'' :: int) = 65" "(of_char CHR ''a'' :: int) = 97" by simp_all
  then show "is_digit r \<Longrightarrow> \<not> is_letter r" by (auto simp: is_letter_def is_digit_iff char_le_iff)
qed

lemma contains_char: "str_contains s [c] \<longleftrightarrow> c \<in> set s"
  by (auto simp: str_contains_iff in_set_conv_decomp)

text \<open>The table as an association list: a later line for an address replaces an earlier one.\<close>

lemma ndp_entries_map_of:
  "ndp_entries output = map_of (rev (List.map_filter ndp_line (split_on (CHR 0x0A) output)))"
proof -
  have "foldl (\<lambda>entries line. case ndp_line line of None \<Rightarrow> entries | Some (a, e) \<Rightarrow> entries(a \<mapsto> e)) m ls =
      m ++ map_of (rev (List.map_filter ndp_line ls))" for m ls
    by (induction ls arbitrary: m) (auto simp: List.map_filter_simps map_add_def split: option.splits)
  then show ?thesis by (simp add: ndp_entries_def)
qed

section \<open>Properties\<close>

text \<open>The flags column of the table. A field is taken for the flags of a proxy if and only if it is
  letters of \<open>RPWlp\<close>, one of them \<open>p\<close>, followed by decimal digits only: an interface name, a link
  state or an expiry time is not mistaken for it unless it has this very form.\<close>

lemma proxy_flag_form:
  "is_ndp_proxy_flag field \<longleftrightarrow>
     (\<exists>letters digits. field = letters @ digits \<and> set letters \<subseteq> set ''RPWlp'' \<and>
        CHR ''p'' \<in> set letters \<and> list_all is_digit digits)"
proof
  assume "is_ndp_proxy_flag field"
  then have "set (takeWhile is_letter field) \<subseteq> set ''RPWlp''" "CHR ''p'' \<in> set (takeWhile is_letter field)"
    "list_all is_digit (dropWhile is_letter field)"
    by (auto simp: is_ndp_proxy_flag_def Let_def contains_char list_all_iff split: if_split_asm)
  then show "\<exists>letters digits. field = letters @ digits \<and> set letters \<subseteq> set ''RPWlp'' \<and>
      CHR ''p'' \<in> set letters \<and> list_all is_digit digits"
    by (intro exI [of _ "takeWhile is_letter field"] exI [of _ "dropWhile is_letter field"]) simp
next
  assume "\<exists>letters digits. field = letters @ digits \<and> set letters \<subseteq> set ''RPWlp'' \<and>
      CHR ''p'' \<in> set letters \<and> list_all is_digit digits"
  then obtain letters digits where f: "field = letters @ digits" "set letters \<subseteq> set ''RPWlp''"
    "CHR ''p'' \<in> set letters" "list_all is_digit digits" by blast
  have "list_all is_letter letters" using f(2) flag_letters(1) by (auto simp: list_all_iff)
  moreover have "takeWhile is_letter digits = [] \<and> dropWhile is_letter digits = digits"
    using f(4) flag_letters(2) by (cases digits) auto
  ultimately have "takeWhile is_letter field = letters" "dropWhile is_letter field = digits"
    by (auto simp: f(1) list_all_iff takeWhile_append dropWhile_append)
  then show "is_ndp_proxy_flag field"
    using f by (auto simp: is_ndp_proxy_flag_def Let_def contains_char list_all_iff)
qed

text \<open>
  What the columns of the table mean, without the parser. A row belongs to an address when its
  first field names the address, possibly followed by a zone; the third field is the interface and
  the flags can be in any later field, because blank columns leave no field. The last row of an
  address counts.
\<close>

definition proxy_field :: "string \<Rightarrow> bool" where
  "proxy_field field \<longleftrightarrow>
     (\<exists>letters digits. field = letters @ digits \<and> set letters \<subseteq> set ''RPWlp'' \<and>
        CHR ''p'' \<in> set letters \<and> list_all is_digit digits)"

definition table_row :: "addr \<Rightarrow> string \<Rightarrow> string list \<Rightarrow> string \<Rightarrow> bool" where
  "table_row a ifname rest line \<longleftrightarrow>
     (\<exists>t zone lladdr b. str_fields line = (t @ zone) # lladdr # ifname # rest \<and>
        CHR ''%'' \<notin> set t \<and> (zone = [] \<or> hd zone = CHR ''%'') \<and>
        parse_addr t = Some b \<and> is6 b \<and> unmap b = a)"

definition last_row :: "string \<Rightarrow> addr \<Rightarrow> string \<Rightarrow> string list \<Rightarrow> bool" where
  "last_row output a ifname rest \<longleftrightarrow>
     (\<exists>before line after. split_on (CHR 0x0A) output = before @ line # after \<and>
        table_row a ifname rest line \<and> (\<forall>l \<in> set after. \<forall>i r. \<not> table_row a i r l))"

lemma hd_split_on: "hd (split_on sep s) = takeWhile (\<lambda>c. c \<noteq> sep) s"
  by (induction s) (auto split: list.split)

lemma before_zone:
  "CHR ''%'' \<notin> set t \<Longrightarrow> zone = [] \<or> hd zone = CHR ''%'' \<Longrightarrow> hd (split_on CHR ''%'' (t @ zone)) = t"
  by (cases zone) (auto simp: hd_split_on takeWhile_append)

lemma zone_split:
  "\<exists>zone. s = hd (split_on CHR ''%'' s) @ zone \<and> CHR ''%'' \<notin> set (hd (split_on CHR ''%'' s)) \<and>
     (zone = [] \<or> hd zone = CHR ''%'')"
  using hd_dropWhile [of "\<lambda>c. c \<noteq> CHR ''%''" s]
  by (intro exI [of _ "dropWhile (\<lambda>c. c \<noteq> CHR ''%'') s"])
    (auto simp: hd_split_on simp del: dropWhile_eq_Nil_conv dest: set_takeWhileD)

lemma table_row_parsed:
  "table_row a ifname rest line \<longleftrightarrow> ndp_line line = Some (a, \<lparr>ne_ifname = ifname, ne_proxy = list_ex is_ndp_proxy_flag rest\<rparr>) \<and>
     rest = drop 3 (str_fields line)"
proof
  assume "table_row a ifname rest line"
  then show "ndp_line line = Some (a, \<lparr>ne_ifname = ifname, ne_proxy = list_ex is_ndp_proxy_flag rest\<rparr>) \<and>
      rest = drop 3 (str_fields line)"
    by (auto simp: table_row_def ndp_line_def Let_def before_zone before_zone [of _ "[]", simplified])
next
  assume l: "ndp_line line = Some (a, \<lparr>ne_ifname = ifname, ne_proxy = list_ex is_ndp_proxy_flag rest\<rparr>) \<and>
      rest = drop 3 (str_fields line)"
  then obtain f mac i r where f: "str_fields line = f # mac # i # r"
    by (auto simp: ndp_line_def Suc_le_length_iff numeral_3_eq_3 not_less Let_def split: if_splits)
  obtain zone where z: "f = hd (split_on CHR ''%'' f) @ zone" "CHR ''%'' \<notin> set (hd (split_on CHR ''%'' f))"
    "zone = [] \<or> hd zone = CHR ''%''"
    using zone_split by blast
  from l f obtain b where "parse_addr (hd (split_on CHR ''%'' f)) = Some b" "is6 b" "unmap b = a" "i = ifname" "r = rest"
    by (auto simp: ndp_line_def Let_def split: option.splits if_splits)
  with f z show "table_row a ifname rest line" unfolding table_row_def by metis
qed

lemma ndp_line_table_row:
  "ndp_line line = Some (a, e) \<longleftrightarrow>
     (\<exists>rest. table_row a (ne_ifname e) rest line \<and> (ne_proxy e \<longleftrightarrow> list_ex proxy_field rest))"
proof -
  have "is_ndp_proxy_flag = proxy_field" by (intro ext) (simp add: proxy_flag_form proxy_field_def)
  then show ?thesis by (cases e) (auto simp: table_row_parsed ndp_line_def Let_def split: option.splits if_splits)
qed

lemma map_of_rev_Some:
  "map_of (rev (List.map_filter f ls)) a = Some e \<longleftrightarrow>
     (\<exists>before l after. ls = before @ l # after \<and> f l = Some (a, e) \<and> (\<forall>l' \<in> set after. \<forall>e'. f l' \<noteq> Some (a, e')))"
proof (induction ls rule: rev_induct)
  case (snoc x ls)
  let ?rhs = "\<lambda>ls. \<exists>before l after. ls = before @ l # after \<and> f l = Some (a, e) \<and>
    (\<forall>l' \<in> set after. \<forall>e'. f l' \<noteq> Some (a, e'))"
  have "?rhs (ls @ [x]) \<longleftrightarrow> f x = Some (a, e) \<or> (\<forall>e'. f x \<noteq> Some (a, e')) \<and> ?rhs ls"
  proof
    assume "?rhs (ls @ [x])"
    then obtain b l c where "ls @ [x] = b @ l # c" "f l = Some (a, e)" "\<forall>l' \<in> set c. \<forall>e'. f l' \<noteq> Some (a, e')"
      by blast
    then show "f x = Some (a, e) \<or> (\<forall>e'. f x \<noteq> Some (a, e')) \<and> ?rhs ls"
      by (cases c rule: rev_cases) auto
  next
    assume "f x = Some (a, e) \<or> (\<forall>e'. f x \<noteq> Some (a, e')) \<and> ?rhs ls"
    then show "?rhs (ls @ [x])"
    proof
      assume "f x = Some (a, e)"
      then show ?thesis by (intro exI [of _ ls] exI [of _ x] exI [of _ "[]"]) simp
    next
      assume "(\<forall>e'. f x \<noteq> Some (a, e')) \<and> ?rhs ls"
      then obtain b l c where "ls = b @ l # c" "f l = Some (a, e)" "\<forall>l' \<in> set c. \<forall>e'. f l' \<noteq> Some (a, e')"
        "\<forall>e'. f x \<noteq> Some (a, e')" by blast
      then show ?thesis by (intro exI [of _ b] exI [of _ l] exI [of _ "c @ [x]"]) auto
    qed
  qed
  moreover have "map_of (rev (List.map_filter f (ls @ [x]))) a = Some e \<longleftrightarrow>
      f x = Some (a, e) \<or> (\<forall>e'. f x \<noteq> Some (a, e')) \<and> map_of (rev (List.map_filter f ls)) a = Some e"
    by (cases "f x") (auto simp: List.map_filter_def)
  ultimately show ?case using snoc by blast
qed (simp add: List.map_filter_simps)

lemma ndp_entries_last_row:
  "ndp_entries output a = Some e \<longleftrightarrow>
     (\<exists>rest. last_row output a (ne_ifname e) rest \<and> (ne_proxy e \<longleftrightarrow> list_ex proxy_field rest))"
proof -
  have no: "(\<forall>e. ndp_line l \<noteq> Some (a, e)) \<longleftrightarrow> (\<forall>i r. \<not> table_row a i r l)" for l
  proof -
    have "\<exists>e::ndp_entry. ne_ifname e = i \<and> (ne_proxy e \<longleftrightarrow> b)" for i b
      by (intro exI [of _ "\<lparr>ne_ifname = i, ne_proxy = b\<rparr>"]) simp
    then show ?thesis unfolding ndp_line_table_row by metis
  qed
  show ?thesis
    unfolding ndp_entries_map_of map_of_rev_Some last_row_def no unfolding ndp_line_table_row by blast
qed

text \<open>C40: reading the neighbor table, whatever the tool prints. The entry of an address is that of the last
  row that names it: with the zone after the address ignored, the interface of the third column,
  and marked as a proxy if and only if some field after it is letters of \<open>RPWlp\<close> with a \<open>p\<close> among
  them and decimal digits behind, so that neither a blank column nor an attached probe count hides
  the flag and no link state or expiry time is mistaken for it. Lines that name no IPv6 address,
  the heading among them, give no entry, and a target is reported as proxied exactly for such a row on
  the interface asked for.\<close>

theorem neighbor_table_lookup:
  "(ndp_entries output a = Some e \<longleftrightarrow>
      (\<exists>rest. last_row output a (ne_ifname e) rest \<and> (ne_proxy e \<longleftrightarrow> list_ex proxy_field rest))) \<and>
   (ndp_proxy_entry_exists output target ifname \<longleftrightarrow>
      (\<exists>i rest. last_row output (unmap target) i rest \<and> list_ex proxy_field rest \<and> (ifname = [] \<or> i = ifname)))"
proof -
  have "ndp_proxy_entry_exists output target ifname \<longleftrightarrow>
      (\<exists>e. ndp_entries output (unmap target) = Some e \<and> ne_proxy e \<and> (ifname = [] \<or> ne_ifname e = ifname))"
    by (auto simp: ndp_proxy_entry_exists_def split: option.split)
  moreover have "\<exists>e::ndp_entry. ne_ifname e = i \<and> ne_proxy e" for i
    by (intro exI [of _ "\<lparr>ne_ifname = i, ne_proxy = True\<rparr>"]) simp
  ultimately show ?thesis unfolding ndp_entries_last_row by metis
qed

text \<open>The kinds of rows the tool prints, one of each.\<close>

definition sample_table :: string where
  "sample_table = str_join [''Neighbor Linklayer Address Netif Expire St Flgs Prbs'',
     ''2001:db8::10 02:00:00:00:00:10 em0 permanent S p'',
     ''fe80::1%em0 02:00:00:00:00:11 em0 23h59m S Rp3'',
     ''2001:db8::12 02:00:00:00:00:12 em0 permanent probe'',
     ''2001:db8::13 02:00:00:00:00:13 em0 permanent S'', []] [CHR 0x0A]"

theorem neighbor_table_lookup_witness:
  "(\<exists>i rest. last_row sample_table (IP6 0x20010db8000000000000000000000010 []) i rest \<and> list_ex proxy_field rest \<and> i = ''em0'') \<and>
   (\<exists>i rest. last_row sample_table (IP6 0xfe800000000000000000000000000001 []) i rest \<and> list_ex proxy_field rest \<and> i = ''em0'') \<and>
   \<not> (\<exists>i rest. last_row sample_table (IP6 0x20010db8000000000000000000000012 []) i rest \<and> list_ex proxy_field rest \<and> i = ''em0'')"
proof -
  have "ndp_proxy_entry_exists sample_table (IP6 0x20010db8000000000000000000000010 []) ''em0''"
    "ndp_proxy_entry_exists sample_table (IP6 0xfe800000000000000000000000000001 []) ''em0''"
    "\<not> ndp_proxy_entry_exists sample_table (IP6 0x20010db8000000000000000000000012 []) ''em0''"
    "unmap (IP6 0x20010db8000000000000000000000010 []) = IP6 0x20010db8000000000000000000000010 []"
    "unmap (IP6 0xfe800000000000000000000000000001 []) = IP6 0xfe800000000000000000000000000001 []"
    "unmap (IP6 0x20010db8000000000000000000000012 []) = IP6 0x20010db8000000000000000000000012 []"
    by code_simp+
  then show ?thesis
    using neighbor_table_lookup [of sample_table _ _ _ "''em0''"] by simp
qed

end
