(* ===== verification/Bsd_Proxy.thy ===== *)
theory Bsd_Proxy
  imports Ndp_Proxy Ifname Active_Ips
begin

text \<open>
  \<open>bsd_ndp_proxy.go\<close>, \<open>ifroute_bsd.go\<close> and \<open>bsd_command.go\<close>: the proxy entries the program keeps in
  the kernel's neighbor table through the command \<open>ndp\<close>. Commands are run in a state of the outside
  world: a runner takes the path, the arguments and the world, and gives the output, the error and
  the world after it. The set \<open>owned\<close> of a responder is threaded through its methods.
\<close>

type_synonym 'w runner = "string \<Rightarrow> string list \<Rightarrow> 'w \<Rightarrow> string \<times> error option \<times> 'w"
type_synonym 'w route_lookup = "addr \<Rightarrow> 'w \<Rightarrow> error + string"

record 'w bsd_responder =
  bp_netif :: iface
  bp_path :: string
  bp_run :: "'w runner"
  bp_route :: "'w route_lookup"

section \<open>Finding the tools and the route\<close>

fun lookup_fallback :: "(string \<Rightarrow> error + string) \<Rightarrow> string list \<Rightarrow> string option" where
  "lookup_fallback look_path [] = None"
| "lookup_fallback look_path (fallback # fs) =
     (case look_path fallback of Inr path \<Rightarrow> Some path | Inl _ \<Rightarrow> lookup_fallback look_path fs)"

definition lookup_bsd_system_command ::
  "(string \<Rightarrow> error + string) \<Rightarrow> string \<Rightarrow> string list \<Rightarrow> error + string"
where
  "lookup_bsd_system_command look_path name fallbacks =
     (case look_path name of
        Inr path \<Rightarrow> Inr path
      | Inl e \<Rightarrow>
          (case lookup_fallback look_path fallbacks of
             Some path \<Rightarrow> Inr path
           | None \<Rightarrow> Inl (Errorf ''find %s command: %w'' [name] (Some e))))"

fun route_interface_lines :: "string list \<Rightarrow> error + string" where
  "route_interface_lines [] = Inl (Errorf ''could not determine the IPv6 route interface'' [] None)"
| "route_interface_lines (line # lines) =
     (case cut CHR '':'' (trim_space line) of
        None \<Rightarrow> route_interface_lines lines
      | Some (key, v) \<Rightarrow>
          if trim_space key \<noteq> ''interface'' then route_interface_lines lines
          else if trim_space v \<noteq> [] then Inr (trim_space v)
          else route_interface_lines lines)"

definition bsd_route_interface_from_output :: "string \<Rightarrow> error + string" where
  "bsd_route_interface_from_output output = route_interface_lines (split_on (CHR 0x0A) output)"

definition bsd_ipv6_route_interface ::
  "(string \<Rightarrow> error + string) \<Rightarrow> 'w runner \<Rightarrow> 'w route_lookup"
where
  "bsd_ipv6_route_interface look_path run target w =
     (if \<not> is_valid target \<or> \<not> is6 target
      then Inl (Errorf ''%s is not a valid IPv6 route target'' [addr_string target] None)
      else case lookup_bsd_system_command look_path ''route'' [''/sbin/route'', ''/usr/sbin/route''] of
        Inl e \<Rightarrow> Inl e
      | Inr path \<Rightarrow>
          (case run path [''-n'', ''get'', ''-inet6'', addr_string target] w of
             (out, Some e, _) \<Rightarrow>
               Inl (Errorf ''route lookup failed: %w: %s'' [trim_space out] (Some e))
           | (out, None, _) \<Rightarrow> bsd_route_interface_from_output out))"

definition default_ipv6_route_indexes_bsd ::
  "(string \<Rightarrow> error + string) \<Rightarrow> 'w runner \<Rightarrow> (string \<Rightarrow> error + iface) \<Rightarrow> 'w \<Rightarrow> error + int list"
where
  "default_ipv6_route_indexes_bsd look_path run interface_by_name w =
     (case bsd_ipv6_route_interface look_path run (IP6 0x20000000000000000000000000000000 []) w of
        Inl e \<Rightarrow> Inl e
      | Inr ifname \<Rightarrow>
          (case interface_by_name ifname of
             Inl e \<Rightarrow> Inl e
           | Inr ifi \<Rightarrow> Inr [if_index ifi]))"

section \<open>Choosing the uplink\<close>

definition virtual_prefixes :: "string list" where
  "virtual_prefixes =
     [''bridge'', ''docker'', ''podman'', ''veth'', ''virbr'', ''epair'', ''vether'', ''vnet'',
      ''utun'', ''tun'', ''tap'', ''gif'', ''gre'', ''stf'', ''ipsec'', ''wg'', ''wireguard'',
      ''vmnet'', ''vboxnet'', ''feth'', ''anpi'', ''awdl'', ''llw'', ''lo'']"

definition is_bsd_ndp_proxy_uplink :: "string \<Rightarrow> bool" where
  "is_bsd_ndp_proxy_uplink ifname =
     (let name = to_lower (trim_space ifname) in
        if list_ex (\<lambda>p. has_prefix name p) virtual_prefixes then False else name \<noteq> [])"

record 'w bsd_env =
  be_euid :: int
  be_look_path :: "string \<Rightarrow> error + string"
  be_run :: "'w runner"

definition new_bsd_proxy_responder :: "'w bsd_env \<Rightarrow> iface \<Rightarrow> error + 'w bsd_responder" where
  "new_bsd_proxy_responder env netif =
     (if length (if_hw netif) \<noteq> 6
      then Inl (Errorf ''interface does not have an Ethernet MAC address'' [] None)
      else if be_euid env \<noteq> 0 then Inl (Errorf ''BSD NDP proxy mode must run as root'' [] None)
      else case lookup_bsd_system_command (be_look_path env) ''ndp'' [''/usr/sbin/ndp'', ''/sbin/ndp''] of
        Inl e \<Rightarrow> Inl (Errorf ''BSD ndp command not found: %w'' [] (Some e))
      | Inr path \<Rightarrow>
          Inr \<lparr>bp_netif = netif, bp_path = path, bp_run = be_run env,
               bp_route = bsd_ipv6_route_interface (be_look_path env) (be_run env)\<rparr>)"

definition check_target_route :: "'w bsd_responder \<Rightarrow> addr \<Rightarrow> 'w \<Rightarrow> error option" where
  "check_target_route r target w =
     (if if_name (bp_netif r) = []
      then Some (Errorf ''BSD NDP proxy has no selected uplink interface'' [] None)
      else case bp_route r target w of
        Inl e \<Rightarrow>
          Some (Errorf ''look up IPv6 route for NDP proxy target %s: %w'' [addr_string target] (Some e))
      | Inr ifname \<Rightarrow>
          if ifname \<noteq> if_name (bp_netif r)
          then Some (Errorf ''NDP proxy target %s routes through %s, not selected uplink %s''
            [addr_string target, ifname, if_name (bp_netif r)] None)
          else None)"

fun check_target_routes_loop :: "'w bsd_responder \<Rightarrow> addr set \<Rightarrow> addr list \<Rightarrow> 'w \<Rightarrow> error option" where
  "check_target_routes_loop r seen [] w = None"
| "check_target_routes_loop r seen (target # targets) w =
     (let target = unmap target in
        if \<not> is_valid target \<or> \<not> is6 target then check_target_routes_loop r seen targets w
        else if target \<in> seen then check_target_routes_loop r seen targets w
        else case check_target_route r target w of
          Some e \<Rightarrow> Some e
        | None \<Rightarrow> check_target_routes_loop r (insert target seen) targets w)"

definition check_target_routes :: "'w bsd_responder \<Rightarrow> addr list \<Rightarrow> 'w \<Rightarrow> error option" where
  "check_target_routes r targets w = check_target_routes_loop r {} targets w"

fun prepare_bsd_loop ::
  "'w bsd_env \<Rightarrow> error list \<Rightarrow> candidate list \<Rightarrow> addr list \<Rightarrow> 'w \<Rightarrow> error + 'w bsd_responder"
where
  "prepare_bsd_loop env failures [] targets w =
     Inl (Errorf ''no candidate interface can manage BSD NDP proxies: %s'' [] (Some (Joined failures)))"
| "prepare_bsd_loop env failures (c # cs) targets w =
     (if \<not> is_bsd_ndp_proxy_uplink (if_name (cand_if c)) then
        prepare_bsd_loop env
          (failures @ [Errorf ''%s(%s): virtual interface is not an NDP proxy uplink''
            [if_name (cand_if c), cand_reason c] None]) cs targets w
      else case new_bsd_proxy_responder env (cand_if c) of
        Inl e \<Rightarrow>
          prepare_bsd_loop env
            (failures @ [Errorf ''%s(%s): %v'' [if_name (cand_if c), cand_reason c] (Some e)]) cs targets w
      | Inr r \<Rightarrow>
          (case check_target_routes r targets w of
             None \<Rightarrow> Inr r
           | Some e \<Rightarrow>
               prepare_bsd_loop env
                 (failures @ [Errorf ''%s(%s): %v'' [if_name (cand_if c), cand_reason c] (Some e)])
                 cs targets w))"

definition prepare_bsd_proxy_responder ::
  "'w bsd_env \<Rightarrow> candidate list \<Rightarrow> addr list \<Rightarrow> 'w \<Rightarrow> error + 'w bsd_responder"
where
  "prepare_bsd_proxy_responder env candidates targets w = prepare_bsd_loop env [] candidates targets w"

section \<open>The neighbor table\<close>

definition bsd_list :: "'w bsd_responder \<Rightarrow> 'w \<Rightarrow> (error + (addr \<rightharpoonup> ndp_entry)) \<times> 'w" where
  "bsd_list r w =
     (case bp_run r (bp_path r) [''-an''] w of
        (out, Some e, w) \<Rightarrow> (Inl (Errorf ''inspect BSD NDP entries: %w: %s'' [trim_space out] (Some e)), w)
      | (out, None, w) \<Rightarrow> (Inr (ndp_entries out), w))"

definition own_proxy :: "'w bsd_responder \<Rightarrow> ndp_entry option \<Rightarrow> bool" where
  "own_proxy r e = (case e of None \<Rightarrow> False | Some e \<Rightarrow> ne_proxy e \<and> ne_ifname e = if_name (bp_netif r))"

definition bsd_ensure ::
  "'w bsd_responder \<Rightarrow> addr \<Rightarrow> addr set \<times> 'w \<Rightarrow> error option \<times> addr set \<times> 'w"
where
  "bsd_ensure r target = (\<lambda>(owned, w).
     case bsd_list r w of
       (Inl e, w) \<Rightarrow> (Some e, owned, w)
     | (Inr entries, w) \<Rightarrow>
         (case entries target of
            Some entry \<Rightarrow>
              if own_proxy r (Some entry) then (None, owned, w)
              else
                (Some (Errorf ''NDP entry for %s already exists as %s; refusing to overwrite it''
                   [addr_string target,
                    if ne_proxy entry then ''proxy on '' @ ne_ifname entry else ''ordinary neighbor''] None),
                 owned - {target}, w)
          | None \<Rightarrow>
              (case check_target_route r target w of
                 Some e \<Rightarrow> (Some e, owned, w)
               | None \<Rightarrow>
                   (case bp_run r (bp_path r)
                       [''-s'', addr_string target, mac_string (if_hw (bp_netif r)), ''proxy''] w of
                      (out, Some e, w) \<Rightarrow>
                        (Some (Errorf ''add NDP proxy for %s on %s: %w: %s''
                           [addr_string target, if_name (bp_netif r), trim_space out] (Some e)), owned, w)
                    | (out, None, w) \<Rightarrow>
                        (case bsd_list r w of
                           (Inl e, w) \<Rightarrow> (Some e, owned, w)
                         | (Inr entries, w) \<Rightarrow>
                             if \<not> own_proxy r (entries target) then
                               (Some
                                 (if trim_space out \<noteq> []
                                  then Errorf ''BSD did not create an NDP proxy for %s on %s: %s''
                                    [addr_string target, if_name (bp_netif r), trim_space out] None
                                  else Errorf ''BSD did not create an NDP proxy for %s on %s; ensure the target routes through that interface''
                                    [addr_string target, if_name (bp_netif r)] None),
                                owned, w)
                             else (None, insert target owned, w))))))"

definition bsd_remove ::
  "'w bsd_responder \<Rightarrow> addr \<Rightarrow> addr set \<times> 'w \<Rightarrow> error option \<times> addr set \<times> 'w"
where
  "bsd_remove r target = (\<lambda>(owned, w).
     case bsd_list r w of
       (Inl e, w) \<Rightarrow> (Some e, owned, w)
     | (Inr entries, w) \<Rightarrow>
         if \<not> own_proxy r (entries target) then (None, owned - {target}, w)
         else
           (case bp_run r (bp_path r) [''-d'', addr_string target] w of
              (out, Some e, w) \<Rightarrow>
                (Some (Errorf ''remove NDP proxy for %s on %s: %w: %s''
                   [addr_string target, if_name (bp_netif r), trim_space out] (Some e)), owned, w)
            | (out, None, w) \<Rightarrow>
                (case bsd_list r w of
                   (Inl e, w) \<Rightarrow> (Some e, owned, w)
                 | (Inr entries, w) \<Rightarrow>
                     if own_proxy r (entries target) then
                       (Some (Errorf ''BSD did not remove NDP proxy for %s on %s''
                          [addr_string target, if_name (bp_netif r)] None), owned, w)
                     else (None, owned - {target}, w))))"

text \<open>A loop that calls a method for every address and collects the errors.\<close>

fun bsd_each ::
  "(addr \<Rightarrow> addr set \<times> 'w \<Rightarrow> error option \<times> addr set \<times> 'w) \<Rightarrow> error list \<Rightarrow> addr list \<Rightarrow>
   addr set \<times> 'w \<Rightarrow> error list \<times> addr set \<times> 'w"
where
  "bsd_each act failures [] st = (failures, st)"
| "bsd_each act failures (t # ts) st =
     (case act t st of
        (Some e, st) \<Rightarrow> bsd_each act (failures @ [e]) ts st
      | (None, st) \<Rightarrow> bsd_each act failures ts st)"

definition wanted_targets :: "addr list \<Rightarrow> addr set" where
  "wanted_targets targets = set (filter (\<lambda>t. is_valid t \<and> is6 t) (map unmap targets))"

definition bsd_sync ::
  "(nat \<Rightarrow> addr set \<Rightarrow> addr list) \<Rightarrow> 'w bsd_responder \<Rightarrow> addr list \<Rightarrow> addr set \<times> 'w \<Rightarrow>
   error option \<times> addr set \<times> 'w"
where
  "bsd_sync ord r targets st =
     (let wanted = wanted_targets targets in
      case bsd_each (bsd_ensure r) [] (ord 0 wanted) st of
        (failures, st) \<Rightarrow>
          (case bsd_each (bsd_remove r) failures (filter (\<lambda>t. t \<notin> wanted) (ord 1 (fst st))) st of
             (failures, st) \<Rightarrow>
               (if failures \<noteq> [] then Some (Errorf ''%s'' [] (Some (Joined failures))) else None, st)))"

definition bsd_close ::
  "(nat \<Rightarrow> addr set \<Rightarrow> addr list) \<Rightarrow> 'w bsd_responder \<Rightarrow> addr set \<times> 'w \<Rightarrow> addr set \<times> 'w"
where
  "bsd_close ord r st = snd (bsd_each (bsd_remove r) [] (ord 0 (fst st)) st)"

section \<open>The contract of the tool\<close>

text \<open>
  What the program relies on: \<open>table w\<close> is the kernel's neighbor table in the world \<open>w\<close>; listing
  changes nothing and, when it succeeds, prints the table; setting and deleting touch the entry of
  their own address only. \<open>sane\<close> holds of the worlds in which the tool works like this.
\<close>

definition uses_tool :: "'w runner \<Rightarrow> string \<Rightarrow> 'w bsd_responder \<Rightarrow> bool" where
  "uses_tool run path r \<longleftrightarrow> bp_run r = run \<and> bp_path r = path"

lemma own_proxy_Some: "own_proxy r e \<Longrightarrow> e \<noteq> None"
  by (cases e) (auto simp: own_proxy_def)

locale ndp_tool =
  fixes run :: "'w runner" and path :: string and table :: "'w \<Rightarrow> addr \<rightharpoonup> ndp_entry"
    and sane :: "'w \<Rightarrow> bool"
  assumes list_tool: "sane w \<Longrightarrow> run path [''-an''] w = (out, e, w') \<Longrightarrow>
      sane w' \<and> table w' = table w \<and> (e = None \<longrightarrow> ndp_entries out = table w)"
    and set_tool: "sane w \<Longrightarrow> is_valid t \<Longrightarrow>
      run path [''-s'', addr_string t, mac, ''proxy''] w = (out, e, w') \<Longrightarrow>
      sane w' \<and> (\<forall>a. a \<noteq> t \<longrightarrow> table w' a = table w a)"
    and delete_tool: "sane w \<Longrightarrow> is_valid t \<Longrightarrow> run path [''-d'', addr_string t] w = (out, e, w') \<Longrightarrow>
      sane w' \<and> (\<forall>a. a \<noteq> t \<longrightarrow> table w' a = table w a)"
begin

lemma bsd_list_laws:
  assumes "uses_tool run path r" "sane w" "bsd_list r w = (res, w')"
  shows "sane w' \<and> table w' = table w \<and> (\<forall>m. res = Inr m \<longrightarrow> m = table w)"
proof -
  obtain out e w1 where l: "run path [''-an''] w = (out, e, w1)" by (metis prod_cases3)
  from list_tool [OF assms(2) l] assms(1,3) l show ?thesis
    by (cases e) (auto simp: bsd_list_def uses_tool_def)
qed

text \<open>
  A call for \<open>t\<close> leaves every other address alone. \<open>ensure\<close> never changes an entry that is there,
  and takes ownership only of an entry it made itself on its own interface.
\<close>

lemma ensure_laws:
  assumes u: "uses_tool run path r" and s: "sane w" and t: "is_valid t"
    and run: "bsd_ensure r t (owned, w) = (res, owned', w')"
  shows "sane w'" "\<And>a. a \<noteq> t \<Longrightarrow> table w' a = table w a"
    and "table w t \<noteq> None \<Longrightarrow> table w' = table w"
    and "owned' \<subseteq> insert t owned" "owned - {t} \<subseteq> owned'"
    and "t \<in> owned' - owned \<Longrightarrow> table w t = None \<and> own_proxy r (table w' t)"
    and "res = None \<Longrightarrow> own_proxy r (table w' t)"
proof -
  obtain l w1 where l1: "bsd_list r w = (l, w1)" by force
  note a1 = bsd_list_laws [OF u s l1]
  have "sane w' \<and> (\<forall>a. a \<noteq> t \<longrightarrow> table w' a = table w a) \<and>
    (table w t \<noteq> None \<longrightarrow> table w' = table w) \<and> owned' \<subseteq> insert t owned \<and> owned - {t} \<subseteq> owned' \<and>
    (t \<in> owned' - owned \<longrightarrow> table w t = None \<and> own_proxy r (table w' t)) \<and>
    (res = None \<longrightarrow> own_proxy r (table w' t))"
  proof (cases "\<exists>m. l = Inr m \<and> m t = None \<and> check_target_route r t w1 = None")
    case False
    with run l1 a1 show ?thesis
      by (auto simp: bsd_ensure_def split: sum.splits option.splits if_splits)
  next
    case True
    then have l: "l = Inr (table w)" and none: "table w t = None"
      and route: "check_target_route r t w1 = None" using a1 by auto
    obtain out e w2 where set: "run path [''-s'', addr_string t, mac_string (if_hw (bp_netif r)), ''proxy''] w1 =
        (out, e, w2)" by (metis prod_cases3)
    have a2: "sane w2" "\<forall>a. a \<noteq> t \<longrightarrow> table w2 a = table w a" using set_tool [OF _ t set] a1 by auto
    obtain l' w3 where l3: "bsd_list r w2 = (l', w3)" by force
    note a3 = bsd_list_laws [OF u a2(1) l3]
    have step: "bp_run r (bp_path r) [''-s'', addr_string t, mac_string (if_hw (bp_netif r)), ''proxy''] w1 =
        (out, e, w2)" using set u by (simp add: uses_tool_def)
    show ?thesis
    proof (cases e)
      case (Some x)
      with run l1 l none route step a2 show ?thesis by (auto simp: bsd_ensure_def)
    next
      case None
      with run l1 l none route step a2 a3 l3 show ?thesis
        by (cases l') (auto simp: bsd_ensure_def split: if_splits)
    qed
  qed
  then show "sane w'" "\<And>a. a \<noteq> t \<Longrightarrow> table w' a = table w a"
    "table w t \<noteq> None \<Longrightarrow> table w' = table w"
    "owned' \<subseteq> insert t owned" "owned - {t} \<subseteq> owned'"
    "t \<in> owned' - owned \<Longrightarrow> table w t = None \<and> own_proxy r (table w' t)"
    "res = None \<Longrightarrow> own_proxy r (table w' t)"
    by blast+
qed

lemma remove_laws:
  assumes u: "uses_tool run path r" and s: "sane w" and t: "is_valid t"
    and run: "bsd_remove r t (owned, w) = (res, owned', w')"
  shows "sane w'" "\<And>a. a \<noteq> t \<Longrightarrow> table w' a = table w a"
    and "\<not> own_proxy r (table w t) \<Longrightarrow> table w' = table w"
    and "owned' \<subseteq> owned" "owned - {t} \<subseteq> owned'"
    and "res = None \<Longrightarrow> t \<notin> owned' \<and> \<not> own_proxy r (table w' t)"
proof -
  obtain l w1 where l1: "bsd_list r w = (l, w1)" by force
  note a1 = bsd_list_laws [OF u s l1]
  have "sane w' \<and> (\<forall>a. a \<noteq> t \<longrightarrow> table w' a = table w a) \<and>
    (\<not> own_proxy r (table w t) \<longrightarrow> table w' = table w) \<and> owned' \<subseteq> owned \<and> owned - {t} \<subseteq> owned' \<and>
    (res = None \<longrightarrow> t \<notin> owned' \<and> \<not> own_proxy r (table w' t))"
  proof (cases "\<exists>m. l = Inr m \<and> own_proxy r (m t)")
    case False
    with run l1 a1 show ?thesis
      by (auto simp: bsd_remove_def split: sum.splits if_splits)
  next
    case True
    then have l: "l = Inr (table w)" and own: "own_proxy r (table w t)" using a1 by auto
    obtain out e w2 where del: "run path [''-d'', addr_string t] w1 = (out, e, w2)"
      by (metis prod_cases3)
    have a2: "sane w2" "\<forall>a. a \<noteq> t \<longrightarrow> table w2 a = table w a" using delete_tool [OF _ t del] a1 by auto
    obtain l' w3 where l3: "bsd_list r w2 = (l', w3)" by force
    note a3 = bsd_list_laws [OF u a2(1) l3]
    have step: "bp_run r (bp_path r) [''-d'', addr_string t] w1 = (out, e, w2)"
      using del u by (simp add: uses_tool_def)
    show ?thesis
    proof (cases e)
      case (Some x)
      with run l1 l own step a2 show ?thesis by (auto simp: bsd_remove_def)
    next
      case None
      with run l1 l own step a2 a3 l3 show ?thesis
        by (cases l') (auto simp: bsd_remove_def split: if_splits)
    qed
  qed
  then show "sane w'" "\<And>a. a \<noteq> t \<Longrightarrow> table w' a = table w a"
    "\<not> own_proxy r (table w t) \<Longrightarrow> table w' = table w"
    "owned' \<subseteq> owned" "owned - {t} \<subseteq> owned'"
    "res = None \<Longrightarrow> t \<notin> owned' \<and> \<not> own_proxy r (table w' t)"
    by blast+
qed

lemma each_ensure:
  assumes u: "uses_tool run path r" and s: "sane w" and v: "\<forall>t \<in> set ts. is_valid t"
    and run: "bsd_each (bsd_ensure r) fs ts (owned, w) = (fs', owned', w')"
  shows "sane w' \<and> (\<forall>a. a \<notin> set ts \<longrightarrow> table w' a = table w a) \<and>
    (\<forall>a. table w a \<noteq> None \<longrightarrow> table w' a = table w a) \<and>
    owned' \<subseteq> owned \<union> set ts \<and> owned - set ts \<subseteq> owned' \<and>
    (\<forall>t \<in> owned' - owned. table w t = None \<and> own_proxy r (table w' t)) \<and>
    (\<exists>es. fs' = fs @ es) \<and> (fs' = fs \<longrightarrow> (\<forall>t \<in> set ts. own_proxy r (table w' t)))"
  using s v run
proof (induction ts arbitrary: fs owned w)
  case Nil
  then show ?case by auto
next
  case (Cons t ts)
  obtain res o1 w1 where e: "bsd_ensure r t (owned, w) = (res, o1, w1)" by (metis prod_cases3)
  have t: "is_valid t" using Cons.prems(2) by simp
  note laws = ensure_laws [OF u Cons.prems(1) t e]
  let ?fs = "case res of None \<Rightarrow> fs | Some x \<Rightarrow> fs @ [x]"
  have rest: "bsd_each (bsd_ensure r) ?fs ts (o1, w1) = (fs', owned', w')"
    using Cons.prems(3) e by (auto split: option.splits)
  have v: "\<forall>t \<in> set ts. is_valid t" using Cons.prems(2) by simp
  note IH = Cons.IH [OF laws(1) v rest]
  have keep: "table w1 a = table w a" if "table w a \<noteq> None" for a
    using laws(2) [of a] laws(3) that by (cases "a = t") auto
  have own: "table w a = None \<and> own_proxy r (table w' a)" if a: "a \<in> owned' - owned" for a
  proof (cases "a \<in> o1")
    case True
    with a laws(4,6) have "a = t" "table w t = None" "own_proxy r (table w1 t)" by auto
    moreover from this have "table w1 t \<noteq> None" by (blast dest: own_proxy_Some)
    ultimately show ?thesis using IH by auto
  next
    case False
    with a IH have "table w1 a = None" "own_proxy r (table w' a)" by auto
    with keep [of a] show ?thesis by (cases "table w a") auto
  qed
  have sync: "own_proxy r (table w' a)" if "fs' = fs" "a \<in> set (t # ts)" for a
  proof (cases res)
    case None
    with laws(7) have "own_proxy r (table w1 t)" by simp
    moreover from this have "table w1 t \<noteq> None" by (rule own_proxy_Some)
    ultimately have "own_proxy r (table w1 t)" "table w1 t \<noteq> None" by simp_all
    with None that IH show ?thesis by auto
  next
    case (Some x)
    with IH that(1) show ?thesis by auto
  qed
  have pre: "\<exists>es. fs' = fs @ es" using IH by (cases res) auto
  have frame: "table w' a = table w a" if "a \<notin> set (t # ts)" for a
    using that IH laws(2) [of a] by auto
  have old: "table w' a = table w a" if "table w a \<noteq> None" for a
    using keep [OF that] that IH by auto
  have o: "owned' \<subseteq> owned \<union> set (t # ts)" "owned - set (t # ts) \<subseteq> owned'"
    using IH laws(4,5) by auto
  show ?case using IH own sync pre frame old o by blast
qed

lemma each_remove:
  assumes u: "uses_tool run path r" and s: "sane w" and v: "\<forall>t \<in> set ts. is_valid t"
    and run: "bsd_each (bsd_remove r) fs ts (owned, w) = (fs', owned', w')"
  shows "sane w' \<and> (\<forall>a. a \<notin> set ts \<longrightarrow> table w' a = table w a) \<and>
    (\<forall>a. \<not> own_proxy r (table w a) \<longrightarrow> table w' a = table w a) \<and>
    owned' \<subseteq> owned \<and> owned - set ts \<subseteq> owned' \<and>
    (\<exists>es. fs' = fs @ es) \<and>
    (fs' = fs \<longrightarrow> (\<forall>t \<in> set ts. t \<notin> owned' \<and> \<not> own_proxy r (table w' t)))"
  using s v run
proof (induction ts arbitrary: fs owned w)
  case Nil
  then show ?case by auto
next
  case (Cons t ts)
  obtain res o1 w1 where e: "bsd_remove r t (owned, w) = (res, o1, w1)" by (metis prod_cases3)
  have t: "is_valid t" using Cons.prems(2) by simp
  note laws = remove_laws [OF u Cons.prems(1) t e]
  let ?fs = "case res of None \<Rightarrow> fs | Some x \<Rightarrow> fs @ [x]"
  have rest: "bsd_each (bsd_remove r) ?fs ts (o1, w1) = (fs', owned', w')"
    using Cons.prems(3) e by (auto split: option.splits)
  have v: "\<forall>t \<in> set ts. is_valid t" using Cons.prems(2) by simp
  note IH = Cons.IH [OF laws(1) v rest]
  have keep: "table w1 a = table w a" if "\<not> own_proxy r (table w a)" for a
    using laws(2) [of a] laws(3) that by (cases "a = t") auto
  have old: "table w' a = table w a" if "\<not> own_proxy r (table w a)" for a
    using keep [OF that] that IH by auto
  have gone: "a \<notin> owned' \<and> \<not> own_proxy r (table w' a)" if "fs' = fs" "a \<in> set (t # ts)" for a
  proof (cases res)
    case None
    with laws(6) have "t \<notin> o1" "\<not> own_proxy r (table w1 t)" by auto
    with None that IH show ?thesis by auto
  next
    case (Some x)
    with IH that(1) show ?thesis by auto
  qed
  have pre: "\<exists>es. fs' = fs @ es" using IH by (cases res) auto
  have frame: "table w' a = table w a" if "a \<notin> set (t # ts)" for a
    using that IH laws(2) [of a] by auto
  have o: "owned' \<subseteq> owned" "owned - set (t # ts) \<subseteq> owned'"
    using IH laws(4,5) by auto
  show ?case using IH old gone pre frame o by blast
qed


lemma sync_laws:
  assumes ord: "map_order ord" and u: "uses_tool run path r" and s: "sane w"
    and fin: "finite owned" and v: "\<forall>t \<in> owned. is_valid t"
    and run: "bsd_sync ord r targets (owned, w) = (res, owned', w')"
  shows "sane w'" "finite owned' \<and> (\<forall>t \<in> owned'. is_valid t)"
    and "owned' \<subseteq> owned \<union> wanted_targets targets"
    and "\<And>a. a \<notin> owned \<Longrightarrow> table w a \<noteq> None \<Longrightarrow> table w' a = table w a \<and> a \<notin> owned'"
    and "\<And>a. a \<notin> owned \<union> wanted_targets targets \<Longrightarrow> table w' a = table w a"
    and "res = None \<Longrightarrow> (\<forall>t \<in> wanted_targets targets. own_proxy r (table w' t)) \<and>
      owned' \<subseteq> wanted_targets targets \<and>
      (\<forall>t \<in> owned - wanted_targets targets. \<not> own_proxy r (table w' t))"
proof -
  let ?W = "wanted_targets targets"
  have W: "finite ?W" "\<forall>t \<in> ?W. is_valid t" by (auto simp: wanted_targets_def)
  have oW: "set (ord 0 ?W) = ?W" using ord W(1) by (simp add: map_order_def)
  obtain f1 o1 w1 where e1: "bsd_each (bsd_ensure r) [] (ord 0 ?W) (owned, w) = (f1, o1, w1)"
    by (metis prod_cases3)
  have v1: "\<forall>t \<in> set (ord 0 ?W). is_valid t" using W(2) oW by simp
  note E = each_ensure [OF u s v1 e1, unfolded oW]
  then have s1: "sane w1" and fin1: "finite o1" "\<forall>t \<in> o1. is_valid t"
    using fin v W finite_subset [of o1 "owned \<union> ?W"] by auto
  let ?R = "filter (\<lambda>t. t \<notin> ?W) (ord 1 o1)"
  have R: "set ?R = o1 - ?W" using ord fin1(1) by (auto simp: map_order_def)
  obtain f2 o2 w2 where e2: "bsd_each (bsd_remove r) f1 ?R (o1, w1) = (f2, o2, w2)"
    by (metis prod_cases3)
  have v2: "\<forall>t \<in> set ?R. is_valid t" using fin1 R by auto
  note D = each_remove [OF u s1 v2 e2, unfolded R]
  have result: "owned' = o2" "w' = w2" "res = None \<longleftrightarrow> f2 = []"
    using run e1 e2 by (auto simp: bsd_sync_def Let_def split: if_split_asm)
  show "sane w'" using D result by blast
  show "finite owned' \<and> (\<forall>t \<in> owned'. is_valid t)"
    using D fin1 result finite_subset [of o2 o1] by blast
  show "owned' \<subseteq> owned \<union> ?W" using D E result by blast
  show "table w' a = table w a \<and> a \<notin> owned'" if "a \<notin> owned" "table w a \<noteq> None" for a
  proof -
    have a1: "table w1 a = table w a" "a \<notin> o1" using E that by auto
    then have "table w2 a = table w1 a" "a \<notin> o2" using D by auto
    with a1 result show ?thesis by simp
  qed
  show "table w' a = table w a" if "a \<notin> owned \<union> ?W" for a
  proof -
    have a1: "table w1 a = table w a" "a \<notin> o1" using E that by auto
    then have "table w2 a = table w1 a" using D by auto
    with a1 result show ?thesis by simp
  qed
  show "(\<forall>t \<in> ?W. own_proxy r (table w' t)) \<and> owned' \<subseteq> ?W \<and>
      (\<forall>t \<in> owned - ?W. \<not> own_proxy r (table w' t))" if "res = None"
  proof -
    have f: "f2 = []" "f1 = []" using that result D by auto
    have "own_proxy r (table w1 t) \<and> table w2 t = table w1 t" if "t \<in> ?W" for t
      using E D f that by auto
    moreover have "o2 \<subseteq> ?W" using D f by auto
    moreover have "\<not> own_proxy r (table w2 t)" if "t \<in> owned - ?W" for t
      using E D f that by auto
    ultimately show ?thesis using result by auto
  qed
qed

lemma close_laws:
  assumes ord: "map_order ord" and u: "uses_tool run path r" and s: "sane w"
    and fin: "finite owned" and v: "\<forall>t \<in> owned. is_valid t"
    and run: "bsd_close ord r (owned, w) = (owned', w')"
  shows "sane w'" "owned' \<subseteq> owned" "\<And>a. a \<notin> owned \<Longrightarrow> table w' a = table w a"
    and "\<And>a. \<not> own_proxy r (table w a) \<Longrightarrow> table w' a = table w a"
proof -
  have o: "set (ord 0 owned) = owned" using ord fin by (simp add: map_order_def)
  obtain f o1 w1 where e: "bsd_each (bsd_remove r) [] (ord 0 owned) (owned, w) = (f, o1, w1)"
    by (metis prod_cases3)
  have v': "\<forall>t \<in> set (ord 0 owned). is_valid t" using v o by simp
  have r: "owned' = o1" "w' = w1" using run e by (auto simp: bsd_close_def)
  note D = each_remove [OF u s v' e, unfolded o]
  show "sane w'" "owned' \<subseteq> owned" "\<And>a. a \<notin> owned \<Longrightarrow> table w' a = table w a"
    "\<And>a. \<not> own_proxy r (table w a) \<Longrightarrow> table w' a = table w a"
    using D r by auto
qed

end

section \<open>The uplink\<close>

lemma check_routes_loop:
  "check_target_routes_loop r seen targets w = None \<longleftrightarrow>
     (\<forall>t \<in> wanted_targets targets - seen. check_target_route r t w = None)"
proof (induction r seen targets w rule: check_target_routes_loop.induct)
  case (2 r seen t ts w)
  then show ?case by (auto simp: Let_def wanted_targets_def split: option.split)
qed (simp add: wanted_targets_def)

lemma check_routes:
  "check_target_routes r targets w = None \<longleftrightarrow>
     (\<forall>t \<in> wanted_targets targets. check_target_route r t w = None)"
  by (simp add: check_target_routes_def check_routes_loop)

text \<open>A candidate that can manage the targets: not virtual, and every target routes through it.\<close>

definition manages :: "'w bsd_env \<Rightarrow> addr list \<Rightarrow> 'w \<Rightarrow> candidate \<Rightarrow> bool" where
  "manages env targets w c \<longleftrightarrow> is_bsd_ndp_proxy_uplink (if_name (cand_if c)) \<and>
     (\<exists>r. new_bsd_proxy_responder env (cand_if c) = Inr r \<and>
        (\<forall>t \<in> wanted_targets targets. bp_route r t w = Inr (if_name (cand_if c))))"

lemma new_responder_netif: "new_bsd_proxy_responder env netif = Inr r \<Longrightarrow> bp_netif r = netif"
  by (auto simp: new_bsd_proxy_responder_def split: if_splits sum.splits)

lemma uplink_named: "is_bsd_ndp_proxy_uplink n \<Longrightarrow> n \<noteq> []"
  by (auto simp: is_bsd_ndp_proxy_uplink_def Let_def split: if_splits)

lemma manages_iff:
  assumes "is_bsd_ndp_proxy_uplink (if_name (cand_if c))" "new_bsd_proxy_responder env (cand_if c) = Inr r"
  shows "manages env targets w c \<longleftrightarrow> check_target_routes r targets w = None"
proof -
  have "check_target_route r t w = None \<longleftrightarrow> bp_route r t w = Inr (if_name (cand_if c))" for t
    using new_responder_netif [OF assms(2)] uplink_named [OF assms(1)]
    by (cases "bp_route r t w") (auto simp: check_target_route_def)
  with assms show ?thesis by (simp add: manages_def check_routes)
qed

lemma prepare_bsd_loop_spec:
  "case find (manages env targets w) cs of
     None \<Rightarrow> \<not> is_ok (prepare_bsd_loop env fs cs targets w)
   | Some c \<Rightarrow> prepare_bsd_loop env fs cs targets w = new_bsd_proxy_responder env (cand_if c)"
proof (induction env fs cs targets w rule: prepare_bsd_loop.induct)
  case (1 env fs targets w)
  then show ?case by simp
next
  case (2 env fs c cs targets w)
  show ?case
  proof (cases "is_bsd_ndp_proxy_uplink (if_name (cand_if c))")
    case False
    then have "\<not> manages env targets w c" by (simp add: manages_def)
    with False "2.IH"(1) show ?thesis by (simp split: option.splits)
  next
    case up: True
    show ?thesis
    proof (cases "new_bsd_proxy_responder env (cand_if c)")
      case (Inl e)
      then have "\<not> manages env targets w c" by (simp add: manages_def)
      with Inl up "2.IH"(2) show ?thesis by (simp split: option.splits)
    next
      case (Inr r)
      then show ?thesis
        using up "2.IH"(3) [of r] manages_iff [OF up Inr, of targets w]
        by (cases "check_target_routes r targets w") (simp_all split: option.splits)
    qed
  qed
qed

text \<open>C30: the choice of the uplink. The proxy runs on the first candidate that is not virtual (no
  bridge, tunnel, container or loopback name), on which a responder can be made, and through which
  the kernel routes every wanted target; there is an error, and no responder, if and only if no
  candidate is like this.\<close>

theorem bsd_uplink_choice:
  "case find (manages env targets w) cs of
     None \<Rightarrow> \<exists>e. prepare_bsd_proxy_responder env cs targets w = Inl e
   | Some c \<Rightarrow> \<exists>r. prepare_bsd_proxy_responder env cs targets w = Inr r \<and> bp_netif r = cand_if c \<and>
       is_bsd_ndp_proxy_uplink (if_name (cand_if c)) \<and> length (if_hw (cand_if c)) = 6 \<and> be_euid env = 0 \<and>
       check_target_routes r targets w = None"
proof (cases "find (manages env targets w) cs")
  case None
  then show ?thesis
    using prepare_bsd_loop_spec [where env = env and targets = targets and w = w and cs = cs and fs = "[]"]
    by (auto simp: prepare_bsd_proxy_responder_def is_ok_def split: sum.splits)
next
  case (Some c)
  then have m: "manages env targets w c" by (auto simp: find_Some_iff)
  then obtain r where up: "is_bsd_ndp_proxy_uplink (if_name (cand_if c))"
    and r: "new_bsd_proxy_responder env (cand_if c) = Inr r" by (auto simp: manages_def)
  have "length (if_hw (cand_if c)) = 6 \<and> be_euid env = 0"
    using r by (auto simp: new_bsd_proxy_responder_def split: if_splits)
  then show ?thesis
    using Some up r m manages_iff [OF up r, of targets w] new_responder_netif [OF r]
      prepare_bsd_loop_spec [where env = env and targets = targets and w = w and cs = cs and fs = "[]"]
    by (auto simp: prepare_bsd_proxy_responder_def)
qed

end
