(* ===== verification/Bsd_Kernel.thy ===== *)
theory Bsd_Kernel
  imports Bsd_Proxy
begin

text \<open>
  An instance of the contract \<open>ndp_tool\<close>: rows of addresses and entries, changed by \<open>ndp -s\<close> and
  \<open>ndp -d\<close> and printed in the form the tests of \<open>bsd_ndp_proxy.go\<close> use. It stands for no code of the
  program and no property is about it: it shows that the contract can hold, and runs the witnesses.
  What the program reads from any table is stated in \<open>Ndp_Proxy\<close>.
\<close>

record kernel =
  k_rows :: "(addr \<times> ndp_entry) list"
  k_route :: "(addr \<times> string) list"
  k_default :: string

definition route_of :: "kernel \<Rightarrow> addr \<Rightarrow> string" where
  "route_of k a = (case map_of (k_route k) a of None \<Rightarrow> k_default k | Some i \<Rightarrow> i)"

definition row_text :: "addr \<times> ndp_entry \<Rightarrow> string" where
  "row_text = (\<lambda>(a, e). str_join ([addr_string a, ''02:00:00:00:00:01'', ne_ifname e, ''permanent'', ''S''] @
     (if ne_proxy e then [''p''] else [])) '' '')"

definition table_heading :: string where
  "table_heading = ''Neighbor Linklayer Address Netif Expire St Flgs Prbs''"

definition table_text :: "(addr \<times> ndp_entry) list \<Rightarrow> string" where
  "table_text rows = str_join (table_heading # map row_text rows) [CHR 0x0A]"

definition plain_addr :: "addr \<Rightarrow> bool" where
  "plain_addr a \<longleftrightarrow> is6 a \<and> \<not> is4in6 a \<and> addr_zone a = []"

definition sane_row :: "addr \<times> ndp_entry \<Rightarrow> bool" where
  "sane_row = (\<lambda>(a, e). plain_addr a \<and> plain_word (ne_ifname e))"

definition sane_kernel :: "kernel \<Rightarrow> bool" where
  "sane_kernel k \<longleftrightarrow> list_all sane_row (k_rows k) \<and> distinct (map fst (k_rows k)) \<and>
     list_all (\<lambda>(_, i). plain_word i) (k_route k) \<and> plain_word (k_default k)"

definition kernel_table :: "kernel \<Rightarrow> addr \<rightharpoonup> ndp_entry" where
  "kernel_table k = map_of (k_rows k)"

definition kernel_run :: "kernel runner" where
  "kernel_run = (\<lambda>path args k.
     case args of
       [op] \<Rightarrow> if op = ''-an'' then (table_text (k_rows k), None, k)
               else ([], Some (Environment ''usage''), k)
     | [op, s] \<Rightarrow>
         (case parse_addr s of
            Some a \<Rightarrow>
              if op = ''-d'' \<and> map_of (k_rows k) a \<noteq> None
              then ([], None, k\<lparr>k_rows := filter (\<lambda>(b, _). b \<noteq> a) (k_rows k)\<rparr>)
              else ([], Some (Environment ''delete''), k)
          | None \<Rightarrow> ([], Some (Environment ''bad address''), k))
     | [op, s, mac, word] \<Rightarrow>
         if op = ''-n'' then
           (case parse_addr word of
              Some a \<Rightarrow> (''   interface: '' @ route_of k a, None, k)
            | None \<Rightarrow> ([], Some (Environment ''bad address''), k))
         else
         (case parse_addr s of
            Some a \<Rightarrow>
              if op = ''-s'' \<and> plain_addr a \<and> map_of (k_rows k) a = None
              then ([], None, k\<lparr>k_rows := (a, \<lparr>ne_ifname = route_of k a, ne_proxy = True\<rparr>) # k_rows k\<rparr>)
              else ([], Some (Environment ''file exists''), k)
          | None \<Rightarrow> ([], Some (Environment ''bad address''), k))
     | _ \<Rightarrow> ([], Some (Environment ''usage''), k))"

section \<open>Printing and parsing the table\<close>

lemma plain_word_addr: "plain_addr a \<Longrightarrow> plain_word (addr_string a)"
proof -
  assume a: "plain_addr a"
  have "addr_string a \<noteq> []"
  proof
    assume e: "addr_string a = []"
    have "parse_addr [] = Some a" using parse_addr_text [of a] a e by (simp add: plain_addr_def)
    then show False by (simp add: parse_addr_def)
  qed
  moreover have "list_all plain_char (addr_string a)"
    using a by (intro addr_string_plain) (simp_all add: plain_addr_def)
  ultimately show ?thesis by (simp add: plain_word_def)
qed

lemma addr_string_no_zone: "plain_addr a \<Longrightarrow> CHR ''%'' \<notin> set (addr_string a)"
  using addr_string_chars [of a "CHR ''%''"] hex_chars_not by (auto simp: plain_addr_def)

lemma plain_texts: "plain_word ''02:00:00:00:00:01''" "plain_word ''permanent''"
    "plain_word ''p''" "plain_word ''S''" "\<not> is_ndp_proxy_flag ''permanent''"
    "is_ndp_proxy_flag ''p''" "\<not> is_ndp_proxy_flag ''S''"
  by code_simp+

lemma row_fields:
  "sane_row (a, e) \<Longrightarrow> str_fields (row_text (a, e)) =
     [addr_string a, ''02:00:00:00:00:01'', ne_ifname e, ''permanent'', ''S''] @ (if ne_proxy e then [''p''] else [])"
  unfolding row_text_def split
  by (intro str_fields_words) (simp add: plain_texts sane_row_def plain_word_addr)

lemma ndp_line_row:
  assumes "sane_row r"
  shows "ndp_line (row_text r) = Some r"
proof -
  obtain a e where r: "r = (a, e)" by force
  have a: "plain_addr a" using assms by (simp add: r sane_row_def)
  then have "is6 a" "unmap a = a" by (simp_all add: plain_addr_def unmap_id)
  with a show ?thesis
    using row_fields [of a e] assms
    by (cases e) (simp add: r ndp_line_def split_on_no_sep addr_string_no_zone parse_addr_text plain_texts)
qed

lemma str_join_no_newline:
  assumes "list_all plain_word ws" shows "CHR 0x0A \<notin> set (str_join ws '' '')"
proof -
  have np: "\<not> plain_char (CHR 0x0A)" by code_simp
  have "CHR 0x0A \<notin> set w" if "plain_word w" for w
    using that np by (auto simp: plain_word_def list_all_iff)
  with assms show ?thesis by (induction ws rule: induct_list012) auto
qed

lemma row_no_newline: "sane_row r \<Longrightarrow> CHR 0x0A \<notin> set (row_text r)"
  unfolding row_text_def
  by (cases r) (auto simp: plain_texts sane_row_def plain_word_addr simp del: str_join.simps
      intro!: str_join_no_newline)

lemma split_join: "ls \<noteq> [] \<Longrightarrow> \<forall>l \<in> set ls. c \<notin> set l \<Longrightarrow> split_on c (str_join ls [c]) = ls"
  by (induction ls rule: induct_list012) (auto simp: split_on_no_sep split_on_append_sep)

lemma heading: "CHR 0x0A \<notin> set table_heading" "ndp_line table_heading = None"
  by code_simp+

lemma ndp_entries_table:
  assumes "list_all sane_row rows" "distinct (map fst rows)"
  shows "ndp_entries (table_text rows) = map_of rows"
proof -
  have "split_on (CHR 0x0A) (table_text rows) = table_heading # map row_text rows"
    unfolding table_text_def using assms(1) row_no_newline heading
    by (intro split_join) (auto simp: list_all_iff)
  moreover have "List.map_filter ndp_line (map row_text rows) = rows"
    using assms(1) by (induction rows) (auto simp: List.map_filter_simps ndp_line_row)
  moreover have "map_of (rev rows) = map_of rows"
    using assms(2) by (subst map_of_inject_set) (simp_all add: rev_map [symmetric])
  ultimately show ?thesis by (simp add: ndp_entries_map_of List.map_filter_simps heading)
qed

lemma route_plain: "sane_kernel k \<Longrightarrow> plain_word (route_of k a)"
  by (auto simp: sane_kernel_def route_of_def list_all_iff split: option.split dest: map_of_SomeD)

lemma map_of_filter_key: "a \<noteq> t \<Longrightarrow> map_of (filter (\<lambda>(b, _). b \<noteq> t) rows) a = map_of rows a"
  by (induction rows) auto

interpretation kernel: ndp_tool kernel_run path kernel_table sane_kernel
proof unfold_locales
  fix w w' :: kernel and out e
  assume s: "sane_kernel w" and r: "kernel_run path [''-an''] w = (out, e, w')"
  then show "sane_kernel w' \<and> kernel_table w' = kernel_table w \<and> (e = None \<longrightarrow> ndp_entries out = kernel_table w)"
    by (auto simp: kernel_run_def kernel_table_def sane_kernel_def ndp_entries_table)
next
  fix w w' :: kernel and t mac out e
  assume s: "sane_kernel w" and t: "is_valid t"
    and r: "kernel_run path [''-s'', addr_string t, mac, ''proxy''] w = (out, e, w')"
  show "sane_kernel w' \<and> (\<forall>a. a \<noteq> t \<longrightarrow> kernel_table w' a = kernel_table w a)"
  proof (cases "plain_addr t \<and> map_of (k_rows w) t = None")
    case True
    with r have w': "w' = w\<lparr>k_rows := (t, \<lparr>ne_ifname = route_of w t, ne_proxy = True\<rparr>) # k_rows w\<rparr>"
      by (simp add: kernel_run_def parse_addr_text t)
    have "t \<notin> fst ` set (k_rows w)" using True by (simp add: map_of_eq_None_iff)
    with s True route_plain [OF s, of t] show ?thesis
      by (simp add: w' sane_kernel_def kernel_table_def sane_row_def)
  next
    case False
    with r have "w' = w" by (simp add: kernel_run_def parse_addr_text t)
    with s show ?thesis by simp
  qed
next
  fix w w' :: kernel and t out e
  assume s: "sane_kernel w" and t: "is_valid t"
    and r: "kernel_run path [''-d'', addr_string t] w = (out, e, w')"
  then have "w' = w \<or> w' = w\<lparr>k_rows := filter (\<lambda>(b, _). b \<noteq> t) (k_rows w)\<rparr>"
    by (auto simp: kernel_run_def parse_addr_text split: if_splits)
  with s show "sane_kernel w' \<and> (\<forall>a. a \<noteq> t \<longrightarrow> kernel_table w' a = kernel_table w a)"
    by (auto simp: sane_kernel_def kernel_table_def map_of_filter_key list_all_iff distinct_map_filter)
qed

section \<open>Properties\<close>

text \<open>C15: removing a proxy. A call leaves every other address alone and changes the entry of the target
  only if it is a proxy on the uplink; it reports success only when no such proxy is left and the
  target is no longer owned, and on a failure it keeps the ownership it had, so a later call tries
  again.\<close>

theorem remove_only_own_proxies:
  assumes "ndp_tool run path table sane" "uses_tool run path r" "sane w" "is_valid t"
    and "bsd_remove r t (owned, w) = (res, owned', w')"
  shows "(\<forall>a. a \<noteq> t \<or> \<not> own_proxy r (table w t) \<longrightarrow> table w' a = table w a) \<and>
    owned - {t} \<subseteq> owned' \<and> owned' \<subseteq> owned \<and>
    (if res = None then t \<notin> owned' \<and> \<not> own_proxy r (table w' t) else owned' = owned)"
proof -
  have "res \<noteq> None \<Longrightarrow> owned' = owned"
    using assms(5) by (auto simp: bsd_remove_def split: prod.splits sum.splits option.splits if_splits)
  then show ?thesis using ndp_tool.remove_laws [OF assms] by auto
qed

text \<open>C7: synchronization. It never touches an entry that was there and is not owned; it changes only
  addresses it owns or wants; and when it succeeds every wanted target has a proxy on the uplink,
  everything owned is wanted, and what was owned and is not wanted is no longer proxied.\<close>

theorem sync_establishes_wanted:
  assumes "ndp_tool run path table sane" "map_order ord" "uses_tool run path r" "sane w"
    and "finite owned" "\<forall>t \<in> owned. is_valid t"
    and "bsd_sync ord r targets (owned, w) = (res, owned', w')"
  shows "(\<forall>a. a \<notin> owned \<and> table w a \<noteq> None \<longrightarrow> table w' a = table w a \<and> a \<notin> owned') \<and>
    (\<forall>a. a \<notin> owned \<union> wanted_targets targets \<longrightarrow> table w' a = table w a) \<and>
    owned' \<subseteq> owned \<union> wanted_targets targets \<and>
    (res = None \<longrightarrow> (\<forall>t \<in> wanted_targets targets. own_proxy r (table w' t)) \<and>
       owned' \<subseteq> wanted_targets targets \<and>
       (\<forall>t \<in> owned - wanted_targets targets. \<not> own_proxy r (table w' t)))"
proof -
  note laws = ndp_tool.sync_laws [OF assms]
  show ?thesis by (intro conjI allI impI) (use laws in \<open>auto\<close>)
qed

text \<open>A kernel and a responder on it.\<close>

definition sample_kernel :: kernel where
  "sample_kernel = \<lparr>k_rows = [(IP6 9 [], \<lparr>ne_ifname = ''em1'', ne_proxy = True\<rparr>)],
     k_route = [], k_default = ''em0''\<rparr>"

definition sample_uplink :: iface where
  "sample_uplink = \<lparr>if_index = 1, if_name = ''em0'', if_hw = [2, 0, 0, 0, 0, 1], if_flags = 19\<rparr>"

definition sample_bsd :: "kernel bsd_responder" where
  "sample_bsd = \<lparr>bp_netif = sample_uplink, bp_path = ''/usr/sbin/ndp'', bp_run = kernel_run,
     bp_route = (\<lambda>a k. Inr (route_of k a))\<rparr>"

lemma sample_bsd_uses: "uses_tool kernel_run ''/usr/sbin/ndp'' sample_bsd"
  by (simp add: uses_tool_def sample_bsd_def)

lemma sample_kernel_sane: "sane_kernel sample_kernel"
proof -
  have "plain_word ''em0''" "plain_word ''em1''" by code_simp+
  then show ?thesis by (simp add: sane_kernel_def sample_kernel_def sane_row_def plain_addr_def mapped4_def)
qed

theorem remove_only_own_proxies_witness:
  "kernel_table (snd (snd (bsd_remove sample_bsd (IP6 9 []) ({}, sample_kernel)))) (IP6 9 []) =
     Some \<lparr>ne_ifname = ''em1'', ne_proxy = True\<rparr>"
proof -
  let ?r = "bsd_remove sample_bsd (IP6 9 []) ({}, sample_kernel)"
  have r: "bsd_remove sample_bsd (IP6 9 []) ({}, sample_kernel) = (fst ?r, fst (snd ?r), snd (snd ?r))"
    by simp
  have t: "kernel_table sample_kernel (IP6 9 []) = Some \<lparr>ne_ifname = ''em1'', ne_proxy = True\<rparr>"
    by (simp add: kernel_table_def sample_kernel_def)
  have "\<not> own_proxy sample_bsd (kernel_table sample_kernel (IP6 9 []))"
    by (simp add: t own_proxy_def sample_bsd_def sample_uplink_def)
  then show ?thesis
    using remove_only_own_proxies [OF kernel.ndp_tool_axioms sample_bsd_uses sample_kernel_sane _ r] t by simp
qed

theorem sync_establishes_wanted_witness:
  "own_proxy sample_bsd (kernel_table (snd (snd (bsd_sync sorted_order sample_bsd [IP6 7 []] ({}, sample_kernel))))
     (IP6 7 []))"
proof -
  let ?r = "bsd_sync sorted_order sample_bsd [IP6 7 []] ({}, sample_kernel)"
  have r: "bsd_sync sorted_order sample_bsd [IP6 7 []] ({}, sample_kernel) =
      (fst ?r, fst (snd ?r), snd (snd ?r))" by simp
  have ok: "fst ?r = None" by code_simp
  have "IP6 7 [] \<in> wanted_targets [IP6 7 []]" by code_simp
  then show ?thesis
    using sync_establishes_wanted [OF kernel.ndp_tool_axioms so.map_order_axioms sample_bsd_uses
        sample_kernel_sane finite.emptyI _ r] ok by simp
qed

section \<open>A failing inspection\<close>

text \<open>
  A tool whose second listing fails. The entry \<open>ndp -s\<close> made is then in the table but not owned:
  closing leaves it.
\<close>

definition flaky_run :: "(kernel \<times> nat) runner" where
  "flaky_run = (\<lambda>path args (k, n).
     if args = [''-an''] \<and> n = 1 then ([], Some (Environment ''interrupted''), (k, Suc n))
     else case kernel_run path args k of
       (out, e, k) \<Rightarrow> (out, e, (k, if args = [''-an''] then Suc n else n)))"

definition flaky_bsd :: "(kernel \<times> nat) bsd_responder" where
  "flaky_bsd = \<lparr>bp_netif = sample_uplink, bp_path = ''/usr/sbin/ndp'', bp_run = flaky_run,
     bp_route = (\<lambda>a (k, n). Inr (route_of k a))\<rparr>"

lemma unconfirmed_proxy_is_left:
  "case bsd_ensure flaky_bsd (IP6 7 []) ({}, (sample_kernel, 0)) of
     (res, owned, w) \<Rightarrow> res \<noteq> None \<and> owned = {} \<and>
       kernel_table (fst (snd (bsd_close sorted_order flaky_bsd (owned, w)))) (IP6 7 []) =
         Some \<lparr>ne_ifname = ''em0'', ne_proxy = True\<rparr>"
proof -
  let ?r = "bsd_ensure flaky_bsd (IP6 7 []) ({}, (sample_kernel, 0))"
  have "fst ?r \<noteq> None" "fst (snd ?r) = {}"
    "kernel_table (fst (snd (snd ?r))) (IP6 7 []) = Some \<lparr>ne_ifname = ''em0'', ne_proxy = True\<rparr>"
    by code_simp+
  then show ?thesis
    by (cases ?r) (auto simp: bsd_close_def sorted_order_def)
qed

end
