(* ===== verification/Runtime_Bsd.thy ===== *)
theory Runtime_Bsd
  imports Bsd_Kernel Docker Cni Static_Targets Readiness Ip_Policy
begin

text \<open>
  \<open>runResponder\<close> of \<open>runtime_bsd.go\<close> as a state machine, in the same way as on Linux: the stretches
  of the start-up, the branches of the main loop, and the goroutines that write to the address
  store. The world \<open>'w\<close> is the one the BSD tools act on; between the commands nobody else changes its
  neighbor table.
\<close>

record ('s, 'w) bsd_config =
  bc_api :: "'s ipset_api"
  bc_goos :: string
  bc_env :: "'w bsd_env"
  bc_candidates :: "candidate list"
  bc_docker :: "string list"
  bc_cni :: "string list"
  bc_cni_dir :: string
  bc_ready :: string

datatype bsd_pc = BStarting | BChecked | BDockerUp | BCniUp | BSynced | BRunning | BStopped "error option"

record ('s, 'w) bsd_state =
  bs_pc :: bsd_pc
  bs_responder :: "'w bsd_responder option"
  bs_static :: "'s static_state"
  bs_active :: "'s active_state"
  bs_files :: files
  bs_owned :: "addr set"
  bs_world :: 'w
  bs_cancelled :: bool

definition bsd_proxy_targets ::
  "(nat \<Rightarrow> addr set \<Rightarrow> addr list) \<Rightarrow> ('s, 'r) static_state_scheme \<Rightarrow> ('s, 'q) active_state_scheme \<Rightarrow> addr list"
where
  "bsd_proxy_targets ord static active =
     map pfx_addr (current_static_targets static) @
     filter runtime_address_needs_announcement (active_address_snapshot ord active)"

text \<open>The deferred calls: \<open>Close\<close> of the responder, if there is one, then clearing the ready file.\<close>

definition bsd_stop ::
  "('s, 'w) bsd_config \<Rightarrow> (nat \<Rightarrow> addr set \<Rightarrow> addr list) \<Rightarrow> write_outcome \<Rightarrow> error option \<Rightarrow>
   ('s, 'w) bsd_state \<Rightarrow> ('s, 'w) bsd_state"
where
  "bsd_stop cfg ord wo r st =
     (case (case bs_responder st of
              None \<Rightarrow> (bs_owned st, bs_world st)
            | Some b \<Rightarrow> bsd_close ord b (bs_owned st, bs_world st)) of
        (owned, w) \<Rightarrow>
          st\<lparr>bs_owned := owned, bs_world := w,
             bs_files := snd (clear_responder_ready_file wo (bc_ready cfg) (bs_files st)),
             bs_pc := BStopped r\<rparr>)"

definition err_bsd_prefix :: error where
  "err_bsd_prefix = Errorf ''macOS and BSD hosts support static NDP proxy targets only as /128 addresses; use -N or -C for dynamic runtime addresses'' [] None"

definition bsd_begin ::
  "('s, 'w) bsd_config \<Rightarrow> (nat \<Rightarrow> addr set \<Rightarrow> addr list) \<Rightarrow> write_outcome \<Rightarrow> write_outcome \<Rightarrow>
   ('s, 'w) bsd_state \<Rightarrow> ('s, 'w) bsd_state"
where
  "bsd_begin cfg ord wo1 wo2 st =
     (case clear_responder_ready_file wo1 (bc_ready cfg) (bs_files st) of
        (Some e, fs) \<Rightarrow> st\<lparr>bs_files := fs, bs_pc := BStopped (Some e)\<rparr>
      | (None, fs) \<Rightarrow>
          if list_ex (\<lambda>p. pfx_bits p \<noteq> 128) (current_static_targets (bs_static st))
          then bsd_stop cfg ord wo2 (Some err_bsd_prefix) (st\<lparr>bs_files := fs\<rparr>)
          else st\<lparr>bs_files := fs, bs_pc := BChecked\<rparr>)"

definition bsd_start_docker ::
  "('s, 'w) bsd_config \<Rightarrow> (nat \<Rightarrow> addr set \<Rightarrow> addr list) \<Rightarrow> network_info \<Rightarrow> error option \<Rightarrow> error option \<Rightarrow>
   write_outcome \<Rightarrow> ('s, 'w) bsd_state \<Rightarrow> ('s, 'w) bsd_state"
where
  "bsd_start_docker cfg ord info client ping wo st =
     (if bc_docker cfg = [] then st\<lparr>bs_pc := BDockerUp\<rparr>
      else case docker_listen (bc_api cfg) (bc_goos cfg) ord info client ping (bc_docker cfg) (bs_active st) of
        (Some e, a) \<Rightarrow> bsd_stop cfg ord wo (Some e) (st\<lparr>bs_active := a\<rparr>)
      | (None, a) \<Rightarrow> st\<lparr>bs_active := a, bs_pc := BDockerUp\<rparr>)"

definition bsd_start_cni ::
  "('s, 'w) bsd_config \<Rightarrow> (nat \<Rightarrow> addr set \<Rightarrow> addr list) \<Rightarrow> (string \<Rightarrow> dir_result) \<Rightarrow> write_outcome \<Rightarrow>
   ('s, 'w) bsd_state \<Rightarrow> ('s, 'w) bsd_state"
where
  "bsd_start_cni cfg ord read_dir wo st =
     (if bc_cni cfg = [] then st\<lparr>bs_pc := BCniUp\<rparr>
      else case cni_listen (bc_api cfg) (bc_goos cfg) ord read_dir (bc_cni cfg) (bc_cni_dir cfg) (bs_active st) of
        (Inl e, a) \<Rightarrow> bsd_stop cfg ord wo (Some e) (st\<lparr>bs_active := a\<rparr>)
      | (Inr dirs, a) \<Rightarrow> st\<lparr>bs_active := a, bs_pc := BCniUp\<rparr>)"

definition bsd_start_sync ::
  "('s, 'w) bsd_config \<Rightarrow> (nat \<Rightarrow> addr set \<Rightarrow> addr list) \<Rightarrow> write_outcome \<Rightarrow>
   ('s, 'w) bsd_state \<Rightarrow> ('s, 'w) bsd_state"
where
  "bsd_start_sync cfg ord wo st =
     (let targets = bsd_proxy_targets ord (bs_static st) (bs_active st) in
      case prepare_bsd_proxy_responder (bc_env cfg) (bc_candidates cfg) targets (bs_world st) of
        Inl e \<Rightarrow> bsd_stop cfg ord wo (Some e) st
      | Inr b \<Rightarrow>
          (case bsd_sync ord b targets ({}, bs_world st) of
             (r, owned, w) \<Rightarrow>
               let st = st\<lparr>bs_responder := Some b, bs_owned := owned, bs_world := w\<rparr> in
               case r of
                 Some e \<Rightarrow> bsd_stop cfg ord wo (Some e) st
               | None \<Rightarrow> st\<lparr>bs_pc := BSynced\<rparr>))"

definition bsd_start_ready ::
  "('s, 'w) bsd_config \<Rightarrow> (nat \<Rightarrow> addr set \<Rightarrow> addr list) \<Rightarrow> write_outcome \<Rightarrow> write_outcome \<Rightarrow>
   ('s, 'w) bsd_state \<Rightarrow> ('s, 'w) bsd_state"
where
  "bsd_start_ready cfg ord wm wo st =
     (case mark_responder_ready wm (bc_ready cfg)
         (case bs_responder st of None \<Rightarrow> [] | Some b \<Rightarrow> if_name (bp_netif b)) (bs_files st) of
        (Some e, fs) \<Rightarrow> bsd_stop cfg ord wo (Some e) (st\<lparr>bs_files := fs\<rparr>)
      | (None, fs) \<Rightarrow> st\<lparr>bs_files := fs, bs_pc := BRunning\<rparr>)"

text \<open>A synchronization in the main loop; its error is only logged.\<close>

definition bsd_resync ::
  "(nat \<Rightarrow> addr set \<Rightarrow> addr list) \<Rightarrow> ('s, 'w) bsd_state \<Rightarrow> ('s, 'w) bsd_state"
where
  "bsd_resync ord st =
     (case bs_responder st of
        None \<Rightarrow> st
      | Some b \<Rightarrow>
          (case bsd_sync ord b (bsd_proxy_targets ord (bs_static st) (bs_active st))
              (bs_owned st, bs_world st) of
             (r, owned, w) \<Rightarrow> st\<lparr>bs_owned := owned, bs_world := w\<rparr>))"

definition bsd_on_target_update ::
  "('s, 'w) bsd_config \<Rightarrow> (nat \<Rightarrow> addr set \<Rightarrow> addr list) \<Rightarrow> (string \<Rightarrow> open_result) \<Rightarrow>
   ('s, 'w) bsd_state \<Rightarrow> ('s, 'w) bsd_state"
where
  "bsd_on_target_update cfg ord open st =
     bsd_resync ord
       (st\<lparr>bs_static := reload_static_target_file (bc_api cfg) (bc_goos cfg) open (bs_static st)\<rparr>)"

definition bsd_on_active_change ::
  "(nat \<Rightarrow> addr set \<Rightarrow> addr list) \<Rightarrow> ('s, 'w) bsd_state \<Rightarrow> ('s, 'w) bsd_state"
where
  "bsd_on_active_change ord st =
     bsd_resync ord (st\<lparr>bs_active := (bs_active st)\<lparr>active_ips_changed := tl (active_ips_changed (bs_active st))\<rparr>\<rparr>)"

inductive bsd_step :: "('s, 'w) bsd_config \<Rightarrow> ('s, 'w) bsd_state \<Rightarrow> ('s, 'w) bsd_state \<Rightarrow> bool"
  for cfg :: "('s, 'w) bsd_config"
where
  begin_step: "bs_pc st = BStarting \<Longrightarrow> map_order ord \<Longrightarrow> bsd_step cfg st (bsd_begin cfg ord wo1 wo2 st)"
| docker_up: "bs_pc st = BChecked \<Longrightarrow> map_order ord \<Longrightarrow>
    bsd_step cfg st (bsd_start_docker cfg ord info client ping wo st)"
| cni_up: "bs_pc st = BDockerUp \<Longrightarrow> map_order ord \<Longrightarrow>
    bsd_step cfg st (bsd_start_cni cfg ord read_dir wo st)"
| first_sync: "bs_pc st = BCniUp \<Longrightarrow> map_order ord \<Longrightarrow> bsd_step cfg st (bsd_start_sync cfg ord wo st)"
| mark: "bs_pc st = BSynced \<Longrightarrow> map_order ord \<Longrightarrow> bsd_step cfg st (bsd_start_ready cfg ord wm wo st)"
| cancelled: "bs_pc st = BRunning \<Longrightarrow> bs_cancelled st \<Longrightarrow> map_order ord \<Longrightarrow>
    bsd_step cfg st (bsd_stop cfg ord wo None st)"
| target_update: "bs_pc st = BRunning \<Longrightarrow> static_target_file (bs_static st) \<noteq> [] \<Longrightarrow> map_order ord \<Longrightarrow>
    bsd_step cfg st (bsd_on_target_update cfg ord open st)"
| active_change: "bs_pc st = BRunning \<Longrightarrow> active_ips_changed (bs_active st) \<noteq> [] \<Longrightarrow> map_order ord \<Longrightarrow>
    bsd_step cfg st (bsd_on_active_change ord st)"
| env_cancel: "bsd_step cfg st (st\<lparr>bs_cancelled := True\<rparr>)"
| env_docker: "bs_pc st \<notin> {BStarting, BChecked} \<Longrightarrow> map_order ord \<Longrightarrow>
    bsd_step cfg st (st\<lparr>bs_active := snd (docker_refresh_configured_networks (bc_api cfg) (bc_goos cfg)
      ord info (bc_docker cfg) (bs_active st))\<rparr>)"
| env_cni: "bs_pc st \<notin> {BStarting, BChecked, BDockerUp} \<Longrightarrow> map_order ord \<Longrightarrow>
    cni_lease_directories (bc_cni cfg) (bc_cni_dir cfg) = Inr dirs \<Longrightarrow>
    bsd_step cfg st (st\<lparr>bs_active := cni_refresh_all (bc_api cfg) (bc_goos cfg) ord read_dir dirs (bs_active st)\<rparr>)"

abbreviation bsd_steps :: "('s, 'w) bsd_config \<Rightarrow> ('s, 'w) bsd_state \<Rightarrow> ('s, 'w) bsd_state \<Rightarrow> bool" where
  "bsd_steps cfg \<equiv> (bsd_step cfg)\<^sup>*\<^sup>*"

section \<open>Laws\<close>

definition bsd_tool_path :: "'w bsd_env \<Rightarrow> string \<Rightarrow> bool" where
  "bsd_tool_path env path \<longleftrightarrow>
     (\<forall>p. lookup_bsd_system_command (be_look_path env) ''ndp'' [''/usr/sbin/ndp'', ''/sbin/ndp''] = Inr p
        \<longrightarrow> p = path)"

lemma new_responder_uses:
  "new_bsd_proxy_responder env netif = Inr b \<Longrightarrow> bsd_tool_path env path \<Longrightarrow>
   uses_tool (be_run env) path b \<and> bp_netif b = netif"
  by (auto simp: new_bsd_proxy_responder_def bsd_tool_path_def uses_tool_def split: if_splits sum.splits)

lemma prepare_bsd_loop_uses:
  "prepare_bsd_loop env fs cs targets w = Inr b \<Longrightarrow> bsd_tool_path env path \<Longrightarrow>
   uses_tool (be_run env) path b \<and>
   (\<exists>c \<in> set cs. bp_netif b = cand_if c \<and> is_bsd_ndp_proxy_uplink (if_name (cand_if c)) \<and>
      check_target_routes b targets w = None)"
proof (induction env fs cs targets w rule: prepare_bsd_loop.induct)
  case (2 env fs c cs targets w)
  then show ?case
    by (auto split: if_splits sum.splits option.splits dest: new_responder_uses)
qed simp

text \<open>
  A session: \<open>T\<close> is the neighbor table when the program starts. No entry of it is ever owned or
  changed, and what is owned was made by the program.
\<close>

definition session_inv ::
  "'w runner \<Rightarrow> string \<Rightarrow> ('w \<Rightarrow> addr \<rightharpoonup> ndp_entry) \<Rightarrow> ('w \<Rightarrow> bool) \<Rightarrow> (addr \<rightharpoonup> ndp_entry) \<Rightarrow>
   ('s, 'w) bsd_state \<Rightarrow> bool"
where
  "session_inv run path table sane T st \<longleftrightarrow>
     sane (bs_world st) \<and> finite (bs_owned st) \<and> (\<forall>t \<in> bs_owned st. is_valid t) \<and>
     (\<forall>a. T a \<noteq> None \<longrightarrow> a \<notin> bs_owned st \<and> table (bs_world st) a = T a) \<and>
     (\<forall>b. bs_responder st = Some b \<longrightarrow> uses_tool run path b)"

lemma session_frame:
  "session_inv run path table sane T st \<Longrightarrow> bs_world st' = bs_world st \<Longrightarrow> bs_owned st' = bs_owned st \<Longrightarrow>
   bs_responder st' = bs_responder st \<Longrightarrow> session_inv run path table sane T st'"
  by (simp add: session_inv_def)

definition bsd_start ::
  "('s, 'w) bsd_config \<Rightarrow> ('s, 'w) bsd_state \<Rightarrow> bool"
where
  "bsd_start cfg st \<longleftrightarrow> bs_pc st = BStarting \<and> bs_responder st = None \<and> bs_owned st = {} \<and>
     static_inv (bc_api cfg) (bs_static st) \<and> active_inv (bs_active st)"

context ndp_tool
begin

abbreviation session :: "(addr \<rightharpoonup> ndp_entry) \<Rightarrow> ('s, 'w) bsd_state \<Rightarrow> bool" where
  "session \<equiv> session_inv run path table sane"

lemma session_sync:
  assumes "map_order ord" "session T st" "uses_tool run path b"
    and "bsd_sync ord b targets (bs_owned st, bs_world st) = (r, owned, w)"
  shows "session T (st\<lparr>bs_owned := owned, bs_world := w\<rparr>)"
    "session T (st\<lparr>bs_responder := Some b, bs_owned := owned, bs_world := w\<rparr>)"
proof -
  have pre: "sane (bs_world st)" "finite (bs_owned st)" "\<forall>t \<in> bs_owned st. is_valid t"
    using assms(2) by (simp_all add: session_inv_def)
  note laws = sync_laws [OF assms(1,3) pre assms(4)]
  have old: "a \<notin> bs_owned st \<and> table (bs_world st) a = T a" if "T a \<noteq> None" for a
    using assms(2) that by (simp add: session_inv_def)
  have "a \<notin> owned \<and> table w a = T a" if "T a \<noteq> None" for a
    using laws(4) [of a] old [OF that] that by simp
  with laws(1,2) have inv: "sane w" "finite owned" "\<forall>t \<in> owned. is_valid t"
    "\<forall>a. T a \<noteq> None \<longrightarrow> a \<notin> owned \<and> table w a = T a"
    by blast+
  moreover have "\<forall>b. bs_responder st = Some b \<longrightarrow> uses_tool run path b"
    using assms(2) by (simp add: session_inv_def)
  ultimately show "session T (st\<lparr>bs_owned := owned, bs_world := w\<rparr>)"
    unfolding session_inv_def by simp
  show "session T (st\<lparr>bs_responder := Some b, bs_owned := owned, bs_world := w\<rparr>)"
    unfolding session_inv_def using inv assms(3) by simp
qed

lemma session_stop:
  assumes "map_order ord" "session T st"
  shows "session T (bsd_stop cfg ord wo r st)"
proof (cases "bs_responder st")
  case None
  with assms show ?thesis by (simp add: bsd_stop_def session_inv_def)
next
  case (Some b)
  obtain owned w where c: "bsd_close ord b (bs_owned st, bs_world st) = (owned, w)" by force
  have u: "uses_tool run path b" using assms(2) Some by (simp add: session_inv_def)
  have pre: "sane (bs_world st)" "finite (bs_owned st)" "\<forall>t \<in> bs_owned st. is_valid t"
    using assms(2) by (simp_all add: session_inv_def)
  note laws = close_laws [OF assms(1) u pre c]
  have "a \<notin> owned \<and> table w a = T a" if "T a \<noteq> None" for a
    using laws(2) laws(3) [of a] assms(2) that by (auto simp: session_inv_def)
  moreover have "finite owned" using laws(2) pre(2) by (rule finite_subset)
  moreover have "\<forall>t \<in> owned. is_valid t" using laws(2) pre(3) by blast
  ultimately have "sane w \<and> finite owned \<and> (\<forall>t \<in> owned. is_valid t) \<and>
      (\<forall>a. T a \<noteq> None \<longrightarrow> a \<notin> owned \<and> table w a = T a)"
    using laws(1) by blast
  then show ?thesis using Some c u by (simp add: bsd_stop_def session_inv_def)
qed

lemma session_resync:
  assumes "map_order ord" "session T st"
  shows "session T (bsd_resync ord st)"
proof (cases "bs_responder st")
  case None
  with assms show ?thesis by (simp add: bsd_resync_def)
next
  case (Some b)
  then have "uses_tool run path b" using assms(2) by (simp add: session_inv_def)
  with Some session_sync [OF assms] show ?thesis
    by (auto simp: bsd_resync_def split: prod.split)
qed

lemma session_first_sync:
  assumes "map_order ord" "session T st" "be_run (bc_env cfg) = run" "bsd_tool_path (bc_env cfg) path"
  shows "session T (bsd_start_sync cfg ord wo st)"
proof -
  let ?targets = "bsd_proxy_targets ord (bs_static st) (bs_active st)"
  show ?thesis
  proof (cases "prepare_bsd_proxy_responder (bc_env cfg) (bc_candidates cfg) ?targets (bs_world st)")
    case (Inl e)
    with assms show ?thesis by (simp add: bsd_start_sync_def session_stop)
  next
    case (Inr b)
    then have u: "uses_tool run path b"
      using assms(3,4) prepare_bsd_loop_uses [of "bc_env cfg" "[]"]
      by (auto simp: prepare_bsd_proxy_responder_def)
    obtain r owned w where s: "bsd_sync ord b ?targets ({}, bs_world st) = (r, owned, w)"
      by (metis prod_cases3)
    have 0: "session T (st\<lparr>bs_owned := {}\<rparr>)" using assms(2) by (simp add: session_inv_def)
    have 1: "session T (st\<lparr>bs_responder := Some b, bs_owned := owned, bs_world := w\<rparr>)"
      using session_sync(2) [OF assms(1) 0 u, of ?targets r owned w] s
      by (simp add: session_inv_def)
    note frame = session_frame [OF 1]
    show ?thesis
      using Inr s 1 assms(1)
      by (auto simp: bsd_start_sync_def Let_def intro!: frame session_stop split: option.split)
  qed
qed

lemma session_step:
  assumes "bsd_step cfg st st'" "session T st" "be_run (bc_env cfg) = run" "bsd_tool_path (bc_env cfg) path"
  shows "session T st'"
  using assms
proof (induction rule: bsd_step.induct)
  case (begin_step st ord wo1 wo2)
  note frame = session_frame [OF begin_step(3)]
  show ?case
    using begin_step(2) by (auto simp: bsd_begin_def intro!: frame session_stop split: prod.split option.split)
next
  case (docker_up st ord info client ping wo)
  note frame = session_frame [OF docker_up(3)]
  show ?case
    using docker_up(2) by (auto simp: bsd_start_docker_def intro!: frame session_stop split: prod.split option.split)
next
  case (cni_up st ord read_dir wo)
  note frame = session_frame [OF cni_up(3)]
  show ?case
    using cni_up(2) by (auto simp: bsd_start_cni_def intro!: frame session_stop split: prod.split sum.split)
next
  case (first_sync st ord wo)
  then show ?case by (intro session_first_sync)
next
  case (mark st ord wm wo)
  note frame = session_frame [OF mark(3)]
  show ?case
    using mark(2) by (auto simp: bsd_start_ready_def intro!: frame session_stop split: prod.split option.split)
next
  case (cancelled st ord wo)
  then show ?case by (simp add: session_stop)
next
  case (target_update st ord "open")
  note frame = session_frame [OF target_update(4)]
  show ?case using target_update(3)
    by (auto simp: bsd_on_target_update_def intro!: session_resync frame)
next
  case (active_change st ord)
  note frame = session_frame [OF active_change(4)]
  show ?case using active_change(3)
    by (auto simp: bsd_on_active_change_def intro!: session_resync frame)
qed (auto elim!: session_frame)

lemma session_run:
  assumes "bsd_steps cfg st st'" "session T st" "be_run (bc_env cfg) = run" "bsd_tool_path (bc_env cfg) path"
  shows "session T st'"
  using assms(1,2)
proof (induction rule: rtranclp_induct)
  case (step y z)
  then show ?case using session_step [OF step(2) _ assms(3,4)] by simp
qed

end

section \<open>Properties\<close>

text \<open>C5: a session of the proxy on macOS and the BSDs. Whatever happens between the start and the end
  (reloads, changes of the runtime addresses, failing commands, a stop at any point), no entry of the neighbor table that
  was there when the program started is changed or removed, and none is taken into ownership.\<close>

theorem bsd_session_spares_foreign_entries:
  assumes "ndp_tool run path table sane" "be_run (bc_env cfg) = run" "bsd_tool_path (bc_env cfg) path"
    and "bsd_start cfg st0" "sane (bs_world st0)"
    and "bsd_steps cfg st0 st" "table (bs_world st0) a \<noteq> None"
  shows "table (bs_world st) a = table (bs_world st0) a \<and> a \<notin> bs_owned st"
proof -
  have "session_inv run path table sane (table (bs_world st0)) st0"
    using assms(4,5) by (simp add: session_inv_def bsd_start_def)
  from ndp_tool.session_run [OF assms(1,6) this assms(2,3)] show ?thesis
    using assms(7) by (simp add: session_inv_def)
qed

definition sample_bsd_env :: "kernel bsd_env" where
  "sample_bsd_env = \<lparr>be_euid = 0, be_look_path = (\<lambda>c. Inr (''/usr/sbin/'' @ c)), be_run = kernel_run\<rparr>"

definition sample_bsd_config :: "(ipset_op list, kernel) bsd_config" where
  "sample_bsd_config = \<lparr>bc_api = ref_ipset, bc_goos = ''freebsd'', bc_env = sample_bsd_env,
     bc_candidates = [\<lparr>cand_if = sample_uplink, cand_reason = ''requested''\<rparr>], bc_docker = [], bc_cni = [],
     bc_cni_dir = [], bc_ready = ''/run/ready''\<rparr>"

definition sample_bsd_state :: "(ipset_op list, kernel) bsd_state" where
  "sample_bsd_state = \<lparr>bs_pc = BStarting, bs_responder = None,
     bs_static = \<lparr>target_subnets = Some (fst (build_target_set ref_ipset [\<lparr>pfx_addr = IP6 7 [], pfx_bits = 128\<rparr>])),
       static_targets = [\<lparr>pfx_addr = IP6 7 [], pfx_bits = 128\<rparr>], static_cli_targets = [],
       static_target_file = []\<rparr>,
     bs_active = init_active ref_ipset, bs_files = (\<lambda>_. None), bs_owned = {}, bs_world = sample_kernel,
     bs_cancelled = False\<rparr>"

text \<open>A start of the program up to its first synchronization.\<close>

definition sample_bsd_synced :: "(ipset_op list, kernel) bsd_state" where
  "sample_bsd_synced =
     bsd_start_sync sample_bsd_config sorted_order WriteOk
       (bsd_start_cni sample_bsd_config sorted_order (\<lambda>_. DirMissing) WriteOk
         (bsd_start_docker sample_bsd_config sorted_order (\<lambda>_. Inr None) None None WriteOk
           (bsd_begin sample_bsd_config sorted_order WriteOk WriteOk sample_bsd_state)))"

lemma sample_bsd_facts:
  "bs_pc (bsd_begin sample_bsd_config sorted_order WriteOk WriteOk sample_bsd_state) = BChecked"
  "bs_pc sample_bsd_synced = BSynced" "bs_owned sample_bsd_synced = {IP6 7 []}"
  "kernel_table (bs_world sample_bsd_synced) (IP6 7 []) = Some \<lparr>ne_ifname = ''em0'', ne_proxy = True\<rparr>"
  by code_simp+

lemma sample_bsd_run: "bsd_steps sample_bsd_config sample_bsd_state sample_bsd_synced"
proof -
  let ?c = sample_bsd_config and ?o = sorted_order
  let ?s1 = "bsd_begin ?c ?o WriteOk WriteOk sample_bsd_state"
  let ?s2 = "bsd_start_docker ?c ?o (\<lambda>_. Inr None) None None WriteOk ?s1"
  let ?s3 = "bsd_start_cni ?c ?o (\<lambda>_. DirMissing) WriteOk ?s2"
  have pc: "bs_pc sample_bsd_state = BStarting" "bs_pc ?s1 = BChecked" "bs_pc ?s2 = BDockerUp" "bs_pc ?s3 = BCniUp"
    by code_simp+
  let ?s4 = "bsd_start_sync ?c ?o WriteOk ?s3"
  have steps: "bsd_step ?c sample_bsd_state ?s1" "bsd_step ?c ?s1 ?s2" "bsd_step ?c ?s2 ?s3" "bsd_step ?c ?s3 ?s4"
    by (rule begin_step [OF pc(1) so.map_order_axioms], rule docker_up [OF pc(2) so.map_order_axioms],
        rule cni_up [OF pc(3) so.map_order_axioms], rule first_sync [OF pc(4) so.map_order_axioms])
  have "bsd_steps ?c sample_bsd_state ?s3"
    using steps(1-3) by (meson rtranclp.rtrancl_into_rtrancl rtranclp.rtrancl_refl)
  then show ?thesis
    unfolding sample_bsd_synced_def using steps(4) by (rule rtranclp.rtrancl_into_rtrancl)
qed

theorem bsd_session_spares_foreign_entries_witness:
  "kernel_table (bs_world sample_bsd_synced) (IP6 9 []) = Some \<lparr>ne_ifname = ''em1'', ne_proxy = True\<rparr> \<and>
   IP6 9 [] \<notin> bs_owned sample_bsd_synced \<and>
   kernel_table (bs_world sample_bsd_synced) (IP6 7 []) \<noteq> None"
proof -
  have env: "be_run (bc_env sample_bsd_config) = kernel_run"
    and path: "bsd_tool_path (bc_env sample_bsd_config) ''/usr/sbin/ndp''"
    by (simp_all add: sample_bsd_config_def sample_bsd_env_def bsd_tool_path_def lookup_bsd_system_command_def)
  have start: "bsd_start sample_bsd_config sample_bsd_state"
    by (simp add: bsd_start_def sample_bsd_state_def sample_bsd_config_def static_inv_def static_target_def
        init_active_inv)
  have world: "bs_world sample_bsd_state = sample_kernel" by (simp add: sample_bsd_state_def)
  have nine: "kernel_table sample_kernel (IP6 9 []) = Some \<lparr>ne_ifname = ''em1'', ne_proxy = True\<rparr>"
    by (simp add: kernel_table_def sample_kernel_def)
  show ?thesis
    using bsd_session_spares_foreign_entries [OF kernel.ndp_tool_axioms env path start _ sample_bsd_run, of "IP6 9 []"]
      sample_kernel_sane nine sample_bsd_facts(4)
    by (simp add: world)
qed

section \<open>The stores and the ready file\<close>

fun bsd_preparing :: "bsd_pc \<Rightarrow> bool" where
  "bsd_preparing BChecked = True"
| "bsd_preparing BDockerUp = True"
| "bsd_preparing BCniUp = True"
| "bsd_preparing BSynced = True"
| "bsd_preparing _ = False"

definition bsd_ready_inv :: "('s, 'w) bsd_config \<Rightarrow> ('s, 'w) bsd_state \<Rightarrow> bool" where
  "bsd_ready_inv cfg st \<longleftrightarrow>
     (bs_pc st \<in> {BSynced, BRunning} \<longrightarrow> bs_responder st \<noteq> None) \<and>
     (bc_ready cfg \<noteq> [] \<longrightarrow>
      (bsd_preparing (bs_pc st) \<longrightarrow> \<not> signals_ready (bc_ready cfg) (bs_files st)) \<and>
      (bs_pc st = BRunning \<longrightarrow>
        (\<exists>b. bs_responder st = Some b \<and>
           bs_files st (bc_ready cfg) = Some (trim_space (if_name (bp_netif b)) @ [CHR 0x0A]))))"

definition bsd_stores_inv :: "('s, 'w) bsd_config \<Rightarrow> ('s, 'w) bsd_state \<Rightarrow> bool" where
  "bsd_stores_inv cfg st \<longleftrightarrow>
     static_inv (bc_api cfg) (bs_static st) \<and> active_inv (bs_active st) \<and>
     list_all (\<lambda>p. pfx_bits p = 128) (static_targets (bs_static st))"

lemma bsd_stop_fields [simp]:
  "bs_pc (bsd_stop cfg ord wo r st) = BStopped r"
  "bs_static (bsd_stop cfg ord wo r st) = bs_static st"
  "bs_active (bsd_stop cfg ord wo r st) = bs_active st"
  by (auto simp: bsd_stop_def split: prod.split option.split)

lemma bsd_resync_fields [simp]:
  "bs_pc (bsd_resync ord st) = bs_pc st" "bs_static (bsd_resync ord st) = bs_static st"
  "bs_active (bsd_resync ord st) = bs_active st" "bs_files (bsd_resync ord st) = bs_files st"
  "bs_responder (bsd_resync ord st) = bs_responder st"
  by (auto simp: bsd_resync_def split: prod.split option.split)

lemma bsd_ready_stop [simp]: "bsd_ready_inv cfg (bsd_stop cfg ord wo r st)"
  by (simp add: bsd_ready_inv_def)

lemma bsd_ready_prep:
  "bsd_ready_inv cfg st \<Longrightarrow> bsd_preparing (bs_pc st) \<Longrightarrow> bs_files st' = bs_files st \<Longrightarrow>
   bs_pc st' \<noteq> BRunning \<Longrightarrow> (bs_pc st' = BSynced \<Longrightarrow> bs_responder st' \<noteq> None) \<Longrightarrow> bsd_ready_inv cfg st'"
  by (auto simp: bsd_ready_inv_def)

lemma bsd_ready_same:
  "bsd_ready_inv cfg st \<Longrightarrow> bs_files st' = bs_files st \<Longrightarrow> bs_responder st' = bs_responder st \<Longrightarrow>
   bs_pc st' = bs_pc st \<Longrightarrow> bsd_ready_inv cfg st'"
  by (simp add: bsd_ready_inv_def)

lemma bsd_step_ready: "bsd_step cfg st st' \<Longrightarrow> bsd_ready_inv cfg st \<Longrightarrow> bsd_ready_inv cfg st'"
proof (induction rule: bsd_step.induct)
  case (begin_step st ord wo1 wo2)
  then show ?case
    by (auto simp: bsd_begin_def bsd_ready_inv_def dest: clear_ready_not_signalled split: prod.split option.split)
next
  case (docker_up st ord info client ping wo)
  note keep = bsd_ready_prep [OF docker_up(3)]
  show ?case using docker_up(1)
    by (auto simp: bsd_start_docker_def intro!: keep split: prod.split option.split)
next
  case (cni_up st ord read_dir wo)
  note keep = bsd_ready_prep [OF cni_up(3)]
  show ?case using cni_up(1)
    by (auto simp: bsd_start_cni_def intro!: keep split: prod.split sum.split)
next
  case (first_sync st ord wo)
  note keep = bsd_ready_prep [OF first_sync(3)]
  show ?case using first_sync(1)
    by (auto simp: bsd_start_sync_def Let_def intro!: keep split: prod.split sum.split option.split)
next
  case (mark st ord wm wo)
  then obtain b where b: "bs_responder st = Some b" by (auto simp: bsd_ready_inv_def)
  show ?case
    by (auto simp: bsd_start_ready_def b bsd_ready_inv_def dest!: mark_ready_ok split: prod.split option.split)
next
  case (target_update st ord "open")
  then show ?case by (intro bsd_ready_same [OF target_update(4)]) (simp_all add: bsd_on_target_update_def)
next
  case (active_change st ord)
  then show ?case by (intro bsd_ready_same [OF active_change(4)]) (simp_all add: bsd_on_active_change_def)
qed (auto elim!: bsd_ready_same)

lemma reload_hosts:
  assumes "goos \<in> set bsd_platforms" "list_all (\<lambda>p. pfx_bits p = 128) (static_targets st)"
  shows "list_all (\<lambda>p. pfx_bits p = 128) (static_targets (reload_static_target_file api goos open st))"
  using reload_cases [of api goos "open" st] assms
  by (auto simp: reload_accepts_def validate_static_targets_for_platform_def list_all_iff list_ex_iff
      split: if_splits)

lemma bsd_stores_frame:
  "bsd_stores_inv cfg st \<Longrightarrow> bs_static st' = bs_static st \<Longrightarrow> active_inv (bs_active st') \<Longrightarrow> bsd_stores_inv cfg st'"
  by (simp add: bsd_stores_inv_def)

lemma bsd_step_stores:
  "bsd_step cfg st st' \<Longrightarrow> bc_goos cfg \<in> set bsd_platforms \<Longrightarrow> bsd_stores_inv cfg st \<Longrightarrow> bsd_stores_inv cfg st'"
proof (induction rule: bsd_step.induct)
  case (begin_step st ord wo1 wo2)
  then show ?case
    by (auto simp: bsd_begin_def bsd_stores_inv_def split: prod.split option.split)
next
  case (docker_up st ord info client ping wo)
  then have "active_inv (snd (docker_listen (bc_api cfg) (bc_goos cfg) ord info client ping (bc_docker cfg) (bs_active st)))"
    by (intro docker_listen_inv) (simp_all add: bsd_stores_inv_def)
  with docker_up show ?case
    by (auto simp: bsd_start_docker_def bsd_stores_inv_def split: prod.split option.split)
next
  case (cni_up st ord read_dir wo)
  then have "active_inv (snd (cni_listen (bc_api cfg) (bc_goos cfg) ord read_dir (bc_cni cfg) (bc_cni_dir cfg) (bs_active st)))"
    by (intro cni_listen_inv) (simp_all add: bsd_stores_inv_def)
  with cni_up show ?case
    by (auto simp: bsd_start_cni_def bsd_stores_inv_def split: prod.split sum.split)
next
  case (first_sync st ord wo)
  then show ?case
    by (auto simp: bsd_start_sync_def bsd_stores_inv_def Let_def split: prod.split sum.split option.split)
next
  case (mark st ord wm wo)
  then show ?case
    by (auto simp: bsd_start_ready_def bsd_stores_inv_def split: prod.split option.split)
next
  case (target_update st ord "open")
  then show ?case
    by (simp add: bsd_on_target_update_def bsd_stores_inv_def reload_static_inv reload_hosts)
next
  case (active_change st ord)
  then show ?case
    by (cases "active_ips_changed (bs_active st)")
      (simp_all add: bsd_on_active_change_def bsd_stores_inv_def active_inv_def)
next
  case (env_docker st ord info)
  then show ?case
    by (intro bsd_stores_frame [OF env_docker(4)]) (simp_all add: bsd_stores_inv_def map_order.docker_refresh_inv)
next
  case (env_cni st ord dirs read_dir)
  then show ?case
    by (intro bsd_stores_frame [OF env_cni(5)]) (simp_all add: bsd_stores_inv_def cni_refresh_all_inv)
qed (simp_all add: bsd_stores_inv_def)

lemma bsd_run_invs:
  assumes "bsd_steps cfg st0 st" "bc_goos cfg \<in> set bsd_platforms" "bsd_stores_inv cfg st0" "bsd_ready_inv cfg st0"
  shows "bsd_stores_inv cfg st \<and> bsd_ready_inv cfg st"
  using assms(1,3,4)
  by (induction rule: rtranclp_induct) (auto intro: bsd_step_stores bsd_step_ready assms(2))

text \<open>C16: the invariants of the proxy on macOS and the BSDs. In every state of a session both stores
  are consistent and every static target, after any reload too, is a single address, so the check
  at the start is never in conflict with a reload; before the first synchronization succeeded no
  state shows the ready file with content, and while the proxy runs the file names its uplink.\<close>

theorem bsd_session_invariants:
  assumes "bsd_start cfg st0" "bsd_steps cfg st0 st" "bc_goos cfg \<in> set bsd_platforms"
    and "validate_static_targets_for_platform (bc_goos cfg) (static_targets (bs_static st0)) = None"
  shows "static_inv (bc_api cfg) (bs_static st) \<and> active_inv (bs_active st) \<and>
    (\<forall>p \<in> set (static_targets (bs_static st)). pfx_bits p = 128) \<and>
    (bc_ready cfg \<noteq> [] \<longrightarrow>
      (bs_pc st \<in> {BChecked, BDockerUp, BCniUp, BSynced} \<longrightarrow> \<not> signals_ready (bc_ready cfg) (bs_files st)) \<and>
      (bs_pc st = BRunning \<longrightarrow>
        (\<exists>b. bs_responder st = Some b \<and>
           bs_files st (bc_ready cfg) = Some (trim_space (if_name (bp_netif b)) @ [CHR 0x0A]))))"
proof -
  have "bsd_stores_inv cfg st0"
    using assms(1,3,4)
    by (auto simp: bsd_start_def bsd_stores_inv_def validate_static_targets_for_platform_def list_all_iff
        list_ex_iff split: if_splits)
  moreover have "bsd_ready_inv cfg st0" using assms(1) by (simp add: bsd_start_def bsd_ready_inv_def)
  ultimately have "bsd_stores_inv cfg st \<and> bsd_ready_inv cfg st" using bsd_run_invs [OF assms(2,3)] by blast
  then show ?thesis
    by (auto simp: bsd_stores_inv_def bsd_ready_inv_def list_all_iff)
qed

theorem bsd_session_invariants_witness:
  "list_all (\<lambda>p. pfx_bits p = 128) (static_targets (bs_static sample_bsd_synced)) \<and>
   \<not> signals_ready ''/run/ready'' (bs_files sample_bsd_synced)"
proof -
  have ready: "bc_ready sample_bsd_config = ''/run/ready''" by (simp add: sample_bsd_config_def)
  have start: "bsd_start sample_bsd_config sample_bsd_state"
    by (simp add: bsd_start_def sample_bsd_state_def sample_bsd_config_def static_inv_def static_target_def
        init_active_inv)
  have goos: "bc_goos sample_bsd_config \<in> set bsd_platforms" by code_simp
  have "validate_static_targets_for_platform (bc_goos sample_bsd_config) (static_targets (bs_static sample_bsd_state)) = None"
    by code_simp
  from bsd_session_invariants [OF start sample_bsd_run goos this] show ?thesis
    by (simp add: ready sample_bsd_facts(2) list_all_iff)
qed

end
