(* ===== verification/Bsd_Shutdown.thy ===== *)
theory Bsd_Shutdown
  imports Runtime_Bsd
begin

text \<open>
  What a session of the proxy on macOS and the BSDs leaves behind. \<open>Runtime_Bsd\<close> shows that it spares
  the entries of others, with whatever outcome of the commands; with a tool that works, it also
  takes back everything it did.
\<close>

section \<open>A tool that works\<close>

text \<open>
  A listing succeeds; a set that fails does nothing and one that succeeds makes a proxy on the
  interface of the route to the target, which is what \<open>ensure\<close> checks the route for; an entry that is there can be
  deleted.
\<close>

locale reliable_ndp_tool = ndp_tool run path table sane
  for run :: "'w runner" and path :: string and table :: "'w \<Rightarrow> addr \<rightharpoonup> ndp_entry" and sane :: "'w \<Rightarrow> bool" +
  fixes look_path :: "string \<Rightarrow> error + string"
  assumes list_works: "sane w \<Longrightarrow> fst (snd (run path [''-an''] w)) = None"
    and set_fails: "sane w \<Longrightarrow> is_valid t \<Longrightarrow>
      run path [''-s'', addr_string t, mac, ''proxy''] w = (out, Some x, w') \<Longrightarrow> table w' t = table w t"
    and set_works: "sane w \<Longrightarrow> is_valid t \<Longrightarrow> bsd_ipv6_route_interface look_path run t w = Inr ifname \<Longrightarrow>
      run path [''-s'', addr_string t, mac, ''proxy''] w = (out, None, w') \<Longrightarrow>
      table w' t = Some \<lparr>ne_ifname = ifname, ne_proxy = True\<rparr>"
    and delete_works: "sane w \<Longrightarrow> is_valid t \<Longrightarrow> table w t \<noteq> None \<Longrightarrow>
      run path [''-d'', addr_string t] w = (out, e, w') \<Longrightarrow> e = None \<and> table w' t = None"

text \<open>\<open>T\<close> is the table without the program: what is owned was not there and is a proxy of the program,
  everything else is as it was.\<close>

definition only_owned ::
  "'w bsd_responder \<Rightarrow> ('w \<Rightarrow> addr \<rightharpoonup> ndp_entry) \<Rightarrow> (addr \<rightharpoonup> ndp_entry) \<Rightarrow> addr set \<Rightarrow> 'w \<Rightarrow> bool"
where
  "only_owned r table T owned w \<longleftrightarrow>
     (\<forall>a. if a \<in> owned then T a = None \<and> own_proxy r (table w a) else table w a = T a)"

definition routed :: "'w runner \<Rightarrow> string \<Rightarrow> (string \<Rightarrow> error + string) \<Rightarrow> 'w bsd_responder \<Rightarrow> bool" where
  "routed run path look_path r \<longleftrightarrow>
     uses_tool run path r \<and> bp_route r = bsd_ipv6_route_interface look_path run"

lemma prepare_bsd_loop_new:
  "prepare_bsd_loop env fs cs targets w = Inr b \<Longrightarrow> \<exists>netif. new_bsd_proxy_responder env netif = Inr b"
proof (induction env fs cs targets w rule: prepare_bsd_loop.induct)
  case (2 env fs c cs targets w)
  then show ?case by (auto split: if_splits sum.splits option.splits)
qed simp

context reliable_ndp_tool
begin

lemma list_gives_table:
  assumes "routed run path look_path r" "sane w"
  obtains w' where "bsd_list r w = (Inr (table w), w')" "sane w'" "table w' = table w"
proof -
  obtain l w' where l: "bsd_list r w = (l, w')" by force
  have u: "uses_tool run path r" using assms(1) by (simp add: routed_def)
  obtain out w1 where "run path [''-an''] w = (out, None, w1)"
    using list_works [OF assms(2)] by (metis prod.collapse)
  with l u have "l = Inr (ndp_entries out)" by (simp add: bsd_list_def uses_tool_def)
  with bsd_list_laws [OF u assms(2) l] l that show thesis by simp
qed

lemma ensure_only_owned:
  assumes r: "routed run path look_path r" and s: "sane w" and t: "is_valid t"
    and o: "only_owned r table T owned w"
    and run: "bsd_ensure r t (owned, w) = (res, owned', w')"
  shows "only_owned r table T owned' w'"
proof -
  obtain w1 where l: "bsd_list r w = (Inr (table w), w1)" and w1: "sane w1" "table w1 = table w"
    using r s by (rule list_gives_table)
  show ?thesis
  proof (cases "table w t = None \<and> check_target_route r t w1 = None")
    case False
    have mine: "own_proxy r (table w t)" if "t \<in> owned" using o that by (metis only_owned_def)
    have "owned' = owned \<and> w' = w1"
      using False run l mine by (auto simp: bsd_ensure_def split: option.splits if_splits)
    with o w1 show ?thesis by (simp add: only_owned_def)
  next
    case True
    then have absent: "t \<notin> owned" "T t = None"
      using o own_proxy_Some [of r "table w t"] unfolding only_owned_def by metis+
    have u: "bp_run r = run" "bp_path r = path" and route: "bsd_ipv6_route_interface look_path run t w1 = Inr (if_name (bp_netif r))"
      using True r by (auto simp: routed_def uses_tool_def check_target_route_def split: sum.splits if_splits)
    obtain out e w2 where set: "run path [''-s'', addr_string t, mac_string (if_hw (bp_netif r)), ''proxy''] w1 =
        (out, e, w2)" by (metis prod_cases3)
    have w2: "sane w2" "\<forall>a. a \<noteq> t \<longrightarrow> table w2 a = table w a" using set_tool [OF w1(1) t set] w1(2) by auto
    show ?thesis
    proof (cases e)
      case (Some x)
      then have "table w2 t = table w t" using set_fails [OF w1(1) t] set w1(2) by metis
      then have "table w2 = table w" using w2(2) by (metis ext)
      moreover have "owned' = owned \<and> w' = w2" using run l True set Some u by (auto simp: bsd_ensure_def)
      ultimately show ?thesis using o by (simp add: only_owned_def)
    next
      case None
      then have made: "table w2 t = Some \<lparr>ne_ifname = if_name (bp_netif r), ne_proxy = True\<rparr>"
        using set_works [OF w1(1) t route] set by blast
      obtain w3 where l3: "bsd_list r w2 = (Inr (table w2), w3)" and w3: "table w3 = table w2"
        using r w2(1) by (rule list_gives_table)
      have own: "own_proxy r (table w2 t)" by (simp add: made own_proxy_def)
      then have "owned' = insert t owned \<and> w' = w3"
        using run l True set None u l3 by (auto simp: bsd_ensure_def)
      then show ?thesis using o w2(2) w3 own absent by (auto simp: only_owned_def)
    qed
  qed
qed

lemma remove_only_owned:
  assumes r: "routed run path look_path r" and s: "sane w" and t: "is_valid t"
    and o: "only_owned r table T owned w" and mine: "t \<in> owned"
    and run: "bsd_remove r t (owned, w) = (res, owned', w')"
  shows "only_owned r table T owned' w' \<and> res = None \<and> owned' = owned - {t}"
proof -
  obtain w1 where l: "bsd_list r w = (Inr (table w), w1)" and w1: "sane w1" "table w1 = table w"
    using r s by (rule list_gives_table)
  have own: "own_proxy r (table w t)" "T t = None" using o mine by (metis only_owned_def)+
  obtain out e w2 where del: "run path [''-d'', addr_string t] w1 = (out, e, w2)" by (metis prod_cases3)
  have w2: "sane w2" "\<forall>a. a \<noteq> t \<longrightarrow> table w2 a = table w a" using delete_tool [OF w1(1) t del] w1(2) by auto
  have "table w1 t \<noteq> None" using own_proxy_Some [OF own(1)] w1(2) by simp
  from delete_works [OF w1(1) t this del] have gone: "e = None" "table w2 t = None" by auto
  obtain w3 where l3: "bsd_list r w2 = (Inr (table w2), w3)" and w3: "table w3 = table w2"
    using r w2(1) by (rule list_gives_table)
  have "\<not> own_proxy r (table w2 t)" by (simp add: gone own_proxy_def)
  then have "owned' = owned - {t} \<and> w' = w3 \<and> res = None"
    using run l own(1) del gone l3 r by (auto simp: bsd_remove_def routed_def uses_tool_def)
  then show ?thesis using o w2(2) w3 gone own(2) mine by (auto simp: only_owned_def)
qed

lemma each_ensure_only_owned:
  assumes "routed run path look_path r" "sane w" "\<forall>t \<in> set ts. is_valid t" "only_owned r table T owned w"
    and "bsd_each (bsd_ensure r) fs ts (owned, w) = (fs', owned', w')"
  shows "only_owned r table T owned' w'"
  using assms(2-5)
proof (induction ts arbitrary: fs owned w)
  case (Cons t ts)
  obtain res o1 w1 where e: "bsd_ensure r t (owned, w) = (res, o1, w1)" by (metis prod_cases3)
  have u: "uses_tool run path r" using assms(1) by (simp add: routed_def)
  have t: "is_valid t" using Cons.prems(2) by simp
  have "sane w1" by (rule ensure_laws(1) [OF u Cons.prems(1) t e])
  moreover have "only_owned r table T o1 w1"
    by (rule ensure_only_owned [OF assms(1) Cons.prems(1) t Cons.prems(3) e])
  ultimately show ?case using Cons.IH [of w1 o1] Cons.prems(2,4) e by (auto split: option.splits)
qed simp

lemma each_remove_only_owned:
  assumes "routed run path look_path r" "sane w" "\<forall>t \<in> set ts. is_valid t" "only_owned r table T owned w"
    and "distinct ts" "set ts \<subseteq> owned"
    and "bsd_each (bsd_remove r) fs ts (owned, w) = (fs', owned', w')"
  shows "only_owned r table T owned' w' \<and> owned' = owned - set ts"
  using assms(2-7)
proof (induction ts arbitrary: fs owned w)
  case (Cons t ts)
  obtain res o1 w1 where e: "bsd_remove r t (owned, w) = (res, o1, w1)" by (metis prod_cases3)
  have u: "uses_tool run path r" using assms(1) by (simp add: routed_def)
  have t: "is_valid t" "t \<in> owned" using Cons.prems(2,5) by simp_all
  have s1: "sane w1" by (rule remove_laws(1) [OF u Cons.prems(1) t(1) e])
  note one = remove_only_owned [OF assms(1) Cons.prems(1) t(1) Cons.prems(3) t(2) e]
  have "only_owned r table T owned' w' \<and> owned' = o1 - set ts"
    using Cons.IH [of w1 o1] Cons.prems s1 one e by auto
  with one show ?case by auto
qed simp

lemma sync_only_owned:
  assumes ord: "map_order ord" and r: "routed run path look_path r" and s: "sane w"
    and fin: "finite owned" and v: "\<forall>t \<in> owned. is_valid t" and o: "only_owned r table T owned w"
    and run: "bsd_sync ord r targets (owned, w) = (res, owned', w')"
  shows "only_owned r table T owned' w'"
proof -
  let ?W = "wanted_targets targets"
  have W: "finite ?W" "\<forall>t \<in> ?W. is_valid t" by (auto simp: wanted_targets_def)
  have oW: "set (ord 0 ?W) = ?W" using ord W(1) by (simp add: map_order_def)
  have u: "uses_tool run path r" using r by (simp add: routed_def)
  obtain f1 o1 w1 where e1: "bsd_each (bsd_ensure r) [] (ord 0 ?W) (owned, w) = (f1, o1, w1)"
    by (metis prod_cases3)
  have v1: "\<forall>t \<in> set (ord 0 ?W). is_valid t" using W(2) oW by simp
  note E = each_ensure [OF u s v1 e1, unfolded oW]
  then have fin1: "finite o1" "\<forall>t \<in> o1. is_valid t"
    using fin v W finite_subset [of o1 "owned \<union> ?W"] by auto
  have s1: "sane w1" using E by blast
  have 1: "only_owned r table T o1 w1" by (rule each_ensure_only_owned [OF r s v1 o e1])
  let ?R = "filter (\<lambda>t. t \<notin> ?W) (ord 1 o1)"
  have R: "set ?R \<subseteq> o1" "distinct ?R" "\<forall>t \<in> set ?R. is_valid t"
    using ord fin1 by (auto simp: map_order_def)
  obtain f2 o2 w2 where e2: "bsd_each (bsd_remove r) f1 ?R (o1, w1) = (f2, o2, w2)"
    by (metis prod_cases3)
  have "only_owned r table T o2 w2" using each_remove_only_owned [OF r s1 R(3) 1 R(2,1) e2] by blast
  then show ?thesis using run e1 e2 by (auto simp: bsd_sync_def Let_def)
qed

lemma close_owns_nothing:
  assumes ord: "map_order ord" and r: "routed run path look_path r" and s: "sane w"
    and fin: "finite owned" and v: "\<forall>t \<in> owned. is_valid t" and o: "only_owned r table T owned w"
    and run: "bsd_close ord r (owned, w) = (owned', w')"
  shows "only_owned r table T owned' w' \<and> owned' = {}"
proof -
  have os: "set (ord 0 owned) = owned" "distinct (ord 0 owned)" using ord fin by (simp_all add: map_order_def)
  obtain f o1 w1 where e: "bsd_each (bsd_remove r) [] (ord 0 owned) (owned, w) = (f, o1, w1)"
    by (metis prod_cases3)
  have "\<forall>t \<in> set (ord 0 owned). is_valid t" using v os by simp
  from each_remove_only_owned [OF r s this o os(2) _ e] os(1) run e show ?thesis
    by (auto simp: bsd_close_def)
qed

section \<open>The session\<close>

definition clean_inv :: "(addr \<rightharpoonup> ndp_entry) \<Rightarrow> ('s, 'w) bsd_state \<Rightarrow> bool" where
  "clean_inv T st \<longleftrightarrow> session T st \<and>
     (bs_pc st \<in> {BStarting, BChecked, BDockerUp, BCniUp} \<longrightarrow> bs_responder st = None) \<and>
     (case bs_responder st of
        None \<Rightarrow> bs_owned st = {} \<and> table (bs_world st) = T
      | Some b \<Rightarrow> routed run path look_path b \<and> only_owned b table T (bs_owned st) (bs_world st)) \<and>
     (\<forall>r. bs_pc st = BStopped r \<longrightarrow> bs_owned st = {} \<and> table (bs_world st) = T)"

lemma clean_frame:
  "clean_inv T st \<Longrightarrow> bs_world st' = bs_world st \<Longrightarrow> bs_owned st' = bs_owned st \<Longrightarrow>
   bs_responder st' = bs_responder st \<Longrightarrow>
   bs_pc st' = bs_pc st \<or> bs_responder st' = None \<or> bs_pc st' \<in> {BSynced, BRunning} \<Longrightarrow> clean_inv T st'"
  unfolding clean_inv_def
  by (auto simp: session_inv_def split: option.splits) metis+

lemma only_owned_nothing: "only_owned b table T {} w \<longleftrightarrow> table w = T"
  by (auto simp: only_owned_def fun_eq_iff)

lemma clean_stop:
  assumes "map_order ord" "clean_inv T st"
  shows "clean_inv T (bsd_stop cfg ord wo r st)"
proof -
  have session: "session T st" using assms(2) by (simp add: clean_inv_def)
  show ?thesis
  proof (cases "bs_responder st")
    case None
    with assms(2) session_stop [OF assms(1) session] show ?thesis
      by (simp add: clean_inv_def bsd_stop_def)
  next
    case (Some b)
    obtain owned w where c: "bsd_close ord b (bs_owned st, bs_world st) = (owned, w)" by force
    have pre: "sane (bs_world st)" "finite (bs_owned st)" "\<forall>t \<in> bs_owned st. is_valid t"
      using session by (simp_all add: session_inv_def)
    have b: "routed run path look_path b" "only_owned b table T (bs_owned st) (bs_world st)"
      using assms(2) Some by (simp_all add: clean_inv_def)
    have "owned = {}" "table w = T"
      using close_owns_nothing [OF assms(1) b(1) pre b(2) c] by (auto simp: only_owned_nothing)
    then show ?thesis
      using session_stop [OF assms(1) session, of cfg wo r] Some b(1) c
      by (simp add: clean_inv_def bsd_stop_def only_owned_nothing)
  qed
qed

lemma clean_sync:
  assumes "map_order ord" "routed run path look_path b" "session T st"
    and "only_owned b table T (bs_owned st) (bs_world st)"
    and "bsd_sync ord b targets (bs_owned st, bs_world st) = (r, owned, w)"
  shows "only_owned b table T owned w"
  using assms(3) by (intro sync_only_owned [OF assms(1,2) _ _ _ assms(4,5)]) (simp_all add: session_inv_def)

lemma clean_resync:
  assumes "map_order ord" "clean_inv T st" "bs_pc st = BRunning"
  shows "clean_inv T (bsd_resync ord st)"
proof (cases "bs_responder st")
  case None
  with assms show ?thesis by (simp add: bsd_resync_def)
next
  case (Some b)
  obtain r owned w where s: "bsd_sync ord b (bsd_proxy_targets ord (bs_static st) (bs_active st))
      (bs_owned st, bs_world st) = (r, owned, w)" by (metis prod_cases3)
  have b: "routed run path look_path b" "only_owned b table T (bs_owned st) (bs_world st)" "session T st"
    using assms(2) Some by (simp_all add: clean_inv_def)
  have "only_owned b table T owned w" by (rule clean_sync [OF assms(1) b(1,3,2) s])
  then show ?thesis
    using session_resync [OF assms(1) b(3)] b(1) assms(3) Some s by (simp add: clean_inv_def bsd_resync_def)
qed

lemma prepare_bsd_routed:
  assumes "prepare_bsd_loop env fs cs targets w = Inr b" "be_run env = run" "be_look_path env = look_path"
    and "bsd_tool_path env path"
  shows "routed run path look_path b"
proof -
  obtain netif where b: "new_bsd_proxy_responder env netif = Inr b"
    using prepare_bsd_loop_new [OF assms(1)] by blast
  then have "bp_route b = bsd_ipv6_route_interface (be_look_path env) (be_run env)"
    by (auto simp: new_bsd_proxy_responder_def split: if_splits sum.splits)
  with new_responder_uses [OF b assms(4)] assms(2,3) show ?thesis by (simp add: routed_def)
qed

lemma clean_first_sync:
  assumes "bs_pc st = BCniUp" "map_order ord" "clean_inv T st" "be_run (bc_env cfg) = run"
    and "be_look_path (bc_env cfg) = look_path" "bsd_tool_path (bc_env cfg) path"
  shows "clean_inv T (bsd_start_sync cfg ord wo st)"
proof -
  have none: "bs_responder st = None" using assms(1,3) by (simp add: clean_inv_def)
  then have st: "bs_owned st = {}" "table (bs_world st) = T" "session T st"
    using assms(3) by (simp_all add: clean_inv_def)
  let ?targets = "bsd_proxy_targets ord (bs_static st) (bs_active st)"
  show ?thesis
  proof (cases "prepare_bsd_proxy_responder (bc_env cfg) (bc_candidates cfg) ?targets (bs_world st)")
    case (Inl e)
    with clean_stop [OF assms(2,3)] show ?thesis by (simp add: bsd_start_sync_def)
  next
    case (Inr b)
    then have b: "routed run path look_path b"
      unfolding prepare_bsd_proxy_responder_def by (rule prepare_bsd_routed [OF _ assms(4-6)])
    obtain r owned w where s: "bsd_sync ord b ?targets (bs_owned st, bs_world st) = (r, owned, w)"
      by (metis prod_cases3)
    have u: "uses_tool run path b" using b by (simp add: routed_def)
    have o: "only_owned b table T owned w"
      by (rule clean_sync [OF assms(2) b st(3) _ s]) (simp add: st only_owned_nothing)
    let ?st = "st\<lparr>bs_responder := Some b, bs_owned := owned, bs_world := w\<rparr>"
    have "session T ?st" by (rule session_sync(2) [OF assms(2) st(3) u s])
    with o b have c: "clean_inv T (?st\<lparr>bs_pc := BSynced\<rparr>)" by (simp add: clean_inv_def session_inv_def)
    have "bsd_stop cfg ord wo r' ?st = bsd_stop cfg ord wo r' (?st\<lparr>bs_pc := BSynced\<rparr>)" for r'
      by (simp add: bsd_stop_def split: prod.split)
    with c clean_stop [OF assms(2) c] Inr s st(1) show ?thesis
      by (simp add: bsd_start_sync_def Let_def split: option.split)
  qed
qed

lemma clean_step:
  assumes "bsd_step cfg st st'" "clean_inv T st" "be_run (bc_env cfg) = run"
    and "be_look_path (bc_env cfg) = look_path" "bsd_tool_path (bc_env cfg) path"
  shows "clean_inv T st'"
  using assms
proof (induction rule: bsd_step.induct)
  case (begin_step st ord wo1 wo2)
  then have "bs_responder st = None" by (simp add: clean_inv_def)
  note none = this and frame = clean_frame [OF begin_step(3)]
  show ?case using none begin_step(2)
    by (auto simp: bsd_begin_def intro!: frame clean_stop split: prod.split option.split)
next
  case (docker_up st ord info client ping wo)
  then have "bs_responder st = None" by (simp add: clean_inv_def)
  note none = this and frame = clean_frame [OF docker_up(3)]
  show ?case using none docker_up(2)
    by (auto simp: bsd_start_docker_def intro!: frame clean_stop split: prod.split option.split)
next
  case (cni_up st ord read_dir wo)
  then have "bs_responder st = None" by (simp add: clean_inv_def)
  note none = this and frame = clean_frame [OF cni_up(3)]
  show ?case using none cni_up(2)
    by (auto simp: bsd_start_cni_def intro!: frame clean_stop split: prod.split sum.split)
next
  case (first_sync st ord wo)
  then show ?case by (rule clean_first_sync)
next
  case (mark st ord wm wo)
  note frame = clean_frame [OF mark(3)]
  show ?case using mark(2)
    by (auto simp: bsd_start_ready_def intro!: frame clean_stop split: prod.split option.split)
next
  case (cancelled st ord wo)
  show ?case by (rule clean_stop [OF cancelled(3,4)])
next
  case (target_update st ord "open")
  have "clean_inv T (st\<lparr>bs_static := reload_static_target_file (bc_api cfg) (bc_goos cfg) open (bs_static st)\<rparr>)"
    by (rule clean_frame [OF target_update(4)]) simp_all
  with target_update(1,3) show ?case by (auto simp: bsd_on_target_update_def intro!: clean_resync)
next
  case (active_change st ord)
  have "clean_inv T (st\<lparr>bs_active := (bs_active st)\<lparr>active_ips_changed := tl (active_ips_changed (bs_active st))\<rparr>\<rparr>)"
    by (rule clean_frame [OF active_change(4)]) simp_all
  with active_change(1,3) show ?case by (auto simp: bsd_on_active_change_def intro!: clean_resync)
qed (erule clean_frame; simp)+

lemma clean_run:
  assumes "bsd_steps cfg st st'" "clean_inv T st" "be_run (bc_env cfg) = run"
    and "be_look_path (bc_env cfg) = look_path" "bsd_tool_path (bc_env cfg) path"
  shows "clean_inv T st'"
  using assms(1,2)
proof (induction rule: rtranclp_induct)
  case (step y z)
  then show ?case using clean_step [OF step(2) _ assms(3-5)] by simp
qed

end

section \<open>The kernel of \<open>Bsd_Kernel\<close> is reliable\<close>

lemma trim_left_blank: "trim_left (CHR '' '' # s) = trim_left s"
  by (subst trim_left.simps) (simp add: ascii_space_def)

lemma trim_ends:
  assumes "plain_char c" "plain_word w"
  shows "trim_space (c # s @ w) = c # s @ w"
proof -
  obtain d q where rev: "rev w = d # q" using assms(2) by (cases "rev w") (auto simp: plain_word_def)
  then have "d \<in> set w" by (metis list.set_intros(1) set_rev)
  then have "plain_char d" using assms(2) by (simp add: plain_word_def list_all_iff)
  then have "space_rlen (rev (c # s @ w)) = 0" using rev by (simp add: plain_not_space_end del: space_rlen.simps)
  then show ?thesis by (intro trim_space_id plain_not_space assms(1))
qed

lemma route_output:
  assumes "plain_word w"
  shows "bsd_route_interface_from_output (''   interface: '' @ w) = Inr w"
proof -
  have i: "plain_char (CHR ''i'')" and nl: "\<not> plain_char (CHR 0x0A)" by code_simp+
  have "trim_space (''   interface: '' @ w) = trim_space (CHR ''i'' # ''nterface: '' @ w)"
    by (simp add: trim_space_def trim_left_blank)
  also have "\<dots> = ''interface'' @ CHR '':'' # (CHR '' '' # w)"
    using trim_ends [OF i assms, of "''nterface: ''"] by simp
  finally have line: "cut CHR '':'' (trim_space (''   interface: '' @ w)) = Some (''interface'', CHR '' '' # w)"
    by (simp add: cut_append_sep)
  have "list_all plain_char ''interface''" by code_simp
  then have key: "trim_space ''interface'' = ''interface''" by (rule trim_plain)
  have v: "trim_space (CHR '' '' # w) = w"
    using trim_plain [of w] assms by (simp add: trim_space_def trim_left_blank plain_word_def)
  have "CHR 0x0A \<notin> set (''   interface: '' @ w)" using assms nl by (auto simp: plain_word_def list_all_iff)
  then have "split_on (CHR 0x0A) (''   interface: '' @ w) = [''   interface: '' @ w]" by (rule split_on_no_sep)
  with line key v assms show ?thesis
    by (simp add: bsd_route_interface_from_output_def plain_word_def)
qed

lemma kernel_route:
  assumes "sane_kernel k" "is6 t"
    and "bsd_ipv6_route_interface (\<lambda>c. Inr (''/usr/sbin/'' @ c)) kernel_run t k = Inr ifname"
  shows "ifname = route_of k t"
proof -
  have "is_valid t" using assms(2) by (cases t) auto
  then have run: "kernel_run (''/usr/sbin/'' @ ''route'') [''-n'', ''get'', ''-inet6'', addr_string t] k =
      (''   interface: '' @ route_of k t, None, k)"
    by (simp add: kernel_run_def parse_addr_text)
  have plain: "plain_word (route_of k t)" using assms(1) by (rule route_plain)
  have "bsd_route_interface_from_output (''   interface: '' @ route_of k t) = Inr (route_of k t)"
    using plain by (rule route_output)
  with assms(2,3) run \<open>is_valid t\<close> show ?thesis
    by (simp add: bsd_ipv6_route_interface_def lookup_bsd_system_command_def)
qed

interpretation reliable: reliable_ndp_tool kernel_run path kernel_table sane_kernel "\<lambda>c. Inr (''/usr/sbin/'' @ c)"
proof unfold_locales
  fix w :: kernel
  show "fst (snd (kernel_run path [''-an''] w)) = None" by (simp add: kernel_run_def)
next
  fix w w' :: kernel and t mac out x
  assume "sane_kernel w" and t: "is_valid t"
    and r: "kernel_run path [''-s'', addr_string t, mac, ''proxy''] w = (out, Some x, w')"
  then show "kernel_table w' t = kernel_table w t"
    by (auto simp: kernel_run_def parse_addr_text split: if_splits)
next
  fix w w' :: kernel and t mac out ifname
  assume s: "sane_kernel w" and t: "is_valid t"
    and i: "bsd_ipv6_route_interface (\<lambda>c. Inr (''/usr/sbin/'' @ c)) kernel_run t w = Inr ifname"
    and r: "kernel_run path [''-s'', addr_string t, mac, ''proxy''] w = (out, None, w')"
  have "is6 t" using i by (auto simp: bsd_ipv6_route_interface_def split: if_splits)
  then have "ifname = route_of w t" using kernel_route [OF s] i by blast
  with r t show "kernel_table w' t = Some \<lparr>ne_ifname = ifname, ne_proxy = True\<rparr>"
    by (auto simp: kernel_run_def kernel_table_def parse_addr_text split: if_splits)
next
  fix w w' :: kernel and t out e
  assume "sane_kernel w" and t: "is_valid t" and p: "kernel_table w t \<noteq> None"
    and r: "kernel_run path [''-d'', addr_string t] w = (out, e, w')"
  then have "e = None" "w' = w\<lparr>k_rows := filter (\<lambda>(b, _). b \<noteq> t) (k_rows w)\<rparr>"
    by (auto simp: kernel_run_def kernel_table_def parse_addr_text split: if_splits)
  then show "e = None \<and> kernel_table w' t = None"
    by (auto simp: kernel_table_def map_of_eq_None_iff)
qed

section \<open>Properties\<close>

text \<open>C6: the end of a session on macOS and the BSDs. Suppose the tool works: listings succeed, a set that
  fails does nothing, one that succeeds makes a proxy on the interface of the route, and an entry that is
  there can be deleted. Then whatever happened since the start, the session ends, for whatever reason, with the
  neighbor table as it was when the program started: every proxy it made is gone and nothing else changed.
  While it runs, the table differs from that only in the proxies the program owns.\<close>

theorem bsd_session_restores_table:
  assumes "reliable_ndp_tool run path table sane look_path"
    and "be_run (bc_env cfg) = run" "be_look_path (bc_env cfg) = look_path" "bsd_tool_path (bc_env cfg) path"
    and "bsd_start cfg st0" "sane (bs_world st0)" "bsd_steps cfg st0 st"
  shows "(bs_pc st = BStopped r \<longrightarrow> table (bs_world st) = table (bs_world st0) \<and> bs_owned st = {}) \<and>
    (if a \<in> bs_owned st
     then table (bs_world st0) a = None \<and> (\<exists>b. bs_responder st = Some b \<and> own_proxy b (table (bs_world st) a))
     else table (bs_world st) a = table (bs_world st0) a)"
proof -
  note defs = reliable_ndp_tool.clean_inv_def [OF assms(1)]
  have "reliable_ndp_tool.clean_inv run path table sane look_path (table (bs_world st0)) st0"
    using assms(5,6) by (simp add: defs session_inv_def bsd_start_def)
  from reliable_ndp_tool.clean_run [OF assms(1,7) this assms(2-4)] show ?thesis
    unfolding defs by (auto simp: only_owned_def split: option.splits)
qed

definition sample_bsd_stopped :: "(ipset_op list, kernel) bsd_state" where
  "sample_bsd_stopped =
     bsd_stop sample_bsd_config sorted_order WriteOk None
       (bsd_start_ready sample_bsd_config sorted_order WriteOk WriteOk sample_bsd_synced\<lparr>bs_cancelled := True\<rparr>)"

lemma sample_bsd_stopped_run: "bsd_steps sample_bsd_config sample_bsd_state sample_bsd_stopped"
proof -
  let ?ready = "bsd_start_ready sample_bsd_config sorted_order WriteOk WriteOk sample_bsd_synced"
  have pc: "bs_pc ?ready = BRunning" by code_simp
  have "bsd_step sample_bsd_config sample_bsd_synced ?ready"
    by (rule mark [OF sample_bsd_facts(2) so.map_order_axioms])
  moreover have "bsd_step sample_bsd_config ?ready (?ready\<lparr>bs_cancelled := True\<rparr>)" by (rule env_cancel)
  moreover have "bsd_step sample_bsd_config (?ready\<lparr>bs_cancelled := True\<rparr>) sample_bsd_stopped"
    unfolding sample_bsd_stopped_def using pc by (intro cancelled so.map_order_axioms) simp_all
  ultimately show ?thesis using sample_bsd_run by (meson rtranclp.rtrancl_into_rtrancl)
qed

theorem bsd_session_restores_table_witness:
  "kernel_table (bs_world sample_bsd_stopped) = kernel_table sample_kernel \<and>
   kernel_table (bs_world sample_bsd_synced) (IP6 7 []) \<noteq> kernel_table sample_kernel (IP6 7 [])"
proof -
  have env: "be_run (bc_env sample_bsd_config) = kernel_run"
    "be_look_path (bc_env sample_bsd_config) = (\<lambda>c. Inr (''/usr/sbin/'' @ c))"
    "bsd_tool_path (bc_env sample_bsd_config) ''/usr/sbin/ndp''"
    by (simp_all add: sample_bsd_config_def sample_bsd_env_def bsd_tool_path_def lookup_bsd_system_command_def)
  have start: "bsd_start sample_bsd_config sample_bsd_state"
    by (simp add: bsd_start_def sample_bsd_state_def sample_bsd_config_def static_inv_def static_target_def
        init_active_inv)
  have world: "bs_world sample_bsd_state = sample_kernel" by (simp add: sample_bsd_state_def)
  have pc: "bs_pc sample_bsd_stopped = BStopped None" by (simp add: sample_bsd_stopped_def)
  have seven: "kernel_table sample_kernel (IP6 7 []) = None" by (simp add: kernel_table_def sample_kernel_def)
  show ?thesis
    using bsd_session_restores_table [OF reliable.reliable_ndp_tool_axioms env start _ sample_bsd_stopped_run,
        of None "IP6 7 []"] sample_kernel_sane pc sample_bsd_facts(4) seven
    by (simp add: world)
qed

end
