(* ===== verification/Main_App.thy ===== *)
theory Main_App
  imports Static_Targets Readiness Ifname
begin

text \<open>
  The \<open>Before\<close> hook of \<open>main.go\<close>: from the command line to the package variables the responder
  starts with. The hook returns the error it would exit with, and the variables as it leaves them,
  on an early return too.
\<close>

record cli_options =
  opt_ifname :: string
  opt_subnets :: "string list"
  opt_target_file :: string
  opt_reload_interval :: int
  opt_ready_file :: string
  opt_docker :: "string list"
  opt_cni :: "string list"
  opt_cni_dir :: string

record 's app_state =
  ap_static :: "'s static_state"
  ap_ready_file :: string
  ap_files :: files
  ap_reload_every :: int
  ap_docker :: "string list"
  ap_cni :: "string list"
  ap_cni_dir :: string
  ap_candidates :: "candidate list"

text \<open>What the hook asks of the operating system.\<close>

record host_env =
  he_goos :: string
  he_write :: write_outcome
  he_open :: "string \<Rightarrow> open_result"
  he_interfaces :: "error + iface list"
  he_by_index :: "int \<Rightarrow> error + iface"
  he_routes :: "error + int list"
  he_addrs :: "iface \<Rightarrow> error + net_addr list"

definition validate_target_file_reload_interval :: "int \<Rightarrow> error option" where
  "validate_target_file_reload_interval interval =
     (if interval \<le> 0
      then Some (Errorf ''target-file-reload-interval must be greater than zero'' [] None) else None)"

text \<open>The loop over the \<open>subnet\<close> options: the first error, and the prefixes appended before it.\<close>

fun parse_subnets :: "ipprefix list \<Rightarrow> string list \<Rightarrow> error option \<times> ipprefix list" where
  "parse_subnets acc [] = (None, acc)"
| "parse_subnets acc (s # ss) =
     (case parse_static_target s of
        Inl e \<Rightarrow> (Some e, acc)
      | Inr p \<Rightarrow> parse_subnets (acc @ [p]) ss)"

text \<open>From the parsed options on: the target list, its checks and the set.\<close>

definition load_targets ::
  "('s, 'm) ipset_api_scheme \<Rightarrow> host_env \<Rightarrow> 's static_state \<Rightarrow> error option \<times> 's static_state"
where
  "load_targets api env st =
     (case (if static_target_file st \<noteq> []
            then (case read_static_target_file (he_open env) (static_target_file st) of
                    Inl e \<Rightarrow> Inl e
                  | Inr prefixes \<Rightarrow> Inr (static_cli_targets st @ prefixes))
            else Inr (static_cli_targets st)) of
        Inl e \<Rightarrow> (Some e, st)
      | Inr targets \<Rightarrow>
          let st = st\<lparr>static_targets := targets\<rparr> in
          (case validate_static_targets_for_platform (he_goos env) targets of
             Some e \<Rightarrow> (Some e, st)
           | None \<Rightarrow>
               (case build_target_set api targets of
                  (ts, r) \<Rightarrow> (r, st\<lparr>target_subnets := Some ts\<rparr>))))"

definition resolve_interface_candidates :: "host_env \<Rightarrow> string \<Rightarrow> error + candidate list" where
  "resolve_interface_candidates env ifname =
     resolve_interface_candidates_with ifname (he_interfaces env) (he_by_index env)
       (Some (he_routes env)) (Some (interface_has_ipv6_address (he_addrs env)))"

definition app_before ::
  "('s, 'm) ipset_api_scheme \<Rightarrow> host_env \<Rightarrow> cli_options \<Rightarrow> 's app_state \<Rightarrow> error option \<times> 's app_state"
where
  "app_before api env opts st =
     (let st = st\<lparr>ap_static := (ap_static st)\<lparr>static_targets := [], static_cli_targets := [],
                   static_target_file := trim_space (opt_target_file opts)\<rparr>,
                ap_ready_file := trim_space (opt_ready_file opts)\<rparr> in
      case clear_responder_ready_file (he_write env) (ap_ready_file st) (ap_files st) of
        (Some e, fs) \<Rightarrow> (Some e, st\<lparr>ap_files := fs\<rparr>)
      | (None, fs) \<Rightarrow>
        let st = st\<lparr>ap_files := fs, ap_reload_every := opt_reload_interval opts\<rparr> in
        (case validate_target_file_reload_interval (ap_reload_every st) of
           Some e \<Rightarrow> (Some e, st)
         | None \<Rightarrow>
           (case parse_subnets [] (opt_subnets opts) of
              (r, cli) \<Rightarrow>
                let st = st\<lparr>ap_static := (ap_static st)\<lparr>static_cli_targets := cli\<rparr>\<rparr> in
                (case r of
                   Some e \<Rightarrow> (Some e, st)
                 | None \<Rightarrow>
                   (case load_targets api env (ap_static st) of
                      (Some e, static) \<Rightarrow> (Some e, st\<lparr>ap_static := static\<rparr>)
                    | (None, static) \<Rightarrow>
                      let st = st\<lparr>ap_static := static, ap_docker := opt_docker opts,
                                  ap_cni := opt_cni opts, ap_cni_dir := opt_cni_dir opts\<rparr> in
                      (case resolve_interface_candidates env (opt_ifname opts) of
                         Inl e \<Rightarrow> (Some e, st\<lparr>ap_candidates := []\<rparr>)
                       | Inr cs \<Rightarrow> (None, st\<lparr>ap_candidates := cs\<rparr>)))))))"

section \<open>Laws\<close>

lemma parse_subnets_spec:
  "parse_subnets acc ss = (None, ps) \<longleftrightarrow>
     list_all (\<lambda>s. is_ok (parse_static_target s)) ss \<and>
     ps = acc @ map (\<lambda>s. projr (parse_static_target s)) ss"
  by (induction acc ss rule: parse_subnets.induct) (auto simp: is_ok_def split: sum.splits)

lemma parse_subnets_static:
  assumes "parse_subnets [] ss = (None, ps)" "p \<in> set ps"
  shows "static_target p"
proof -
  from assms obtain s where "is_ok (parse_static_target s)" "p = projr (parse_static_target s)"
    by (auto simp: parse_subnets_spec list_all_iff)
  then show ?thesis by (cases "parse_static_target s") (auto intro: parse_static_target_wf)
qed

text \<open>After the first call the ready file is out of the way, whatever follows.\<close>

lemma app_before_files:
  assumes "app_before api env opts st = (r, st')"
  shows "ap_ready_file st' = trim_space (opt_ready_file opts) \<and>
    ap_files st' = snd (clear_responder_ready_file (he_write env) (trim_space (opt_ready_file opts)) (ap_files st)) \<and>
    (r = None \<longrightarrow> fst (clear_responder_ready_file (he_write env) (trim_space (opt_ready_file opts)) (ap_files st)) = None)"
  using assms
  by (auto simp: app_before_def Let_def split: prod.splits option.splits sum.splits)

lemma load_targets_laws:
  assumes "load_targets api env st = (None, st')"
    and cli: "\<forall>p \<in> set (static_cli_targets st). static_target p"
  shows "static_inv api st'" "static_target_file st' = static_target_file st"
    "static_cli_targets st' = static_cli_targets st"
    "validate_static_targets_for_platform (he_goos env) (static_targets st') = None"
    "\<exists>ps. static_targets st' = static_cli_targets st @ ps \<and>
      (if static_target_file st = [] then ps = []
       else read_static_target_file (he_open env) (static_target_file st) = Inr ps)"
  using assms
  by (auto simp: load_targets_def static_inv_def read_static_target_file_def Let_def
      split: if_splits sum.splits option.splits prod.splits dest: read_internal_static)

lemma app_before_load:
  assumes "app_before api env opts st = (None, st')"
  shows "\<exists>cli st1. parse_subnets [] (opt_subnets opts) = (None, cli) \<and>
    static_cli_targets st1 = cli \<and> static_target_file st1 = trim_space (opt_target_file opts) \<and>
    load_targets api env st1 = (None, ap_static st')"
  using assms
  by (auto simp: app_before_def Let_def split: prod.splits option.splits sum.splits
      intro!: exI [of _ "(ap_static st)\<lparr>static_targets := [],
        static_target_file := trim_space (opt_target_file opts), static_cli_targets := _\<rparr>"])

lemma app_before_targets:
  assumes "app_before api env opts st = (None, st')"
  shows "\<exists>ps. static_targets (ap_static st') = static_cli_targets (ap_static st') @ ps \<and>
    (if static_target_file (ap_static st') = [] then ps = []
     else read_static_target_file (he_open env) (static_target_file (ap_static st')) = Inr ps)"
proof -
  obtain cli st1 where cli: "parse_subnets [] (opt_subnets opts) = (None, cli)" "static_cli_targets st1 = cli"
    and l: "load_targets api env st1 = (None, ap_static st')"
    using app_before_load [OF assms] by blast
  have "\<forall>p \<in> set (static_cli_targets st1). static_target p" using parse_subnets_static [OF cli(1)] cli(2) by simp
  from load_targets_laws(2,3,5) [OF l this] show ?thesis by (simp only:)
qed

lemma app_before_ok:
  assumes "app_before api env opts st = (None, st')"
  shows "0 < ap_reload_every st' \<and> static_inv api (ap_static st') \<and>
    static_cli_targets (ap_static st') = map (\<lambda>s. projr (parse_static_target s)) (opt_subnets opts) \<and>
    list_all (\<lambda>s. is_ok (parse_static_target s)) (opt_subnets opts) \<and>
    static_target_file (ap_static st') = trim_space (opt_target_file opts) \<and>
    validate_static_targets_for_platform (he_goos env) (static_targets (ap_static st')) = None \<and>
    ap_docker st' = opt_docker opts \<and> ap_cni st' = opt_cni opts \<and> ap_cni_dir st' = opt_cni_dir opts \<and>
    resolve_interface_candidates env (opt_ifname opts) = Inr (ap_candidates st')"
proof -
  obtain cli where cli: "parse_subnets [] (opt_subnets opts) = (None, cli)"
    using assms
    by (auto simp: app_before_def Let_def split: prod.splits option.splits)
  let ?st = "(ap_static st)\<lparr>static_targets := [],
    static_target_file := trim_space (opt_target_file opts), static_cli_targets := cli\<rparr>"
  from assms cli obtain static where l: "load_targets api env ?st = (None, static)"
    and st': "ap_static st' = static" "0 < ap_reload_every st'" "ap_docker st' = opt_docker opts"
      "ap_cni st' = opt_cni opts" "ap_cni_dir st' = opt_cni_dir opts"
      "resolve_interface_candidates env (opt_ifname opts) = Inr (ap_candidates st')"
    by (auto simp: app_before_def Let_def validate_target_file_reload_interval_def
        split: prod.splits option.splits sum.splits if_splits)
  have "\<forall>p \<in> set (static_cli_targets ?st). static_target p"
    using parse_subnets_static [OF cli] by simp
  note laws = load_targets_laws [OF l this]
  show ?thesis using laws(1-4) st' cli by (simp add: parse_subnets_spec)
qed

text \<open>A text the user configured: an option, or a target line of a content the target file had.\<close>

definition configured_text :: "cli_options \<Rightarrow> (string \<Rightarrow> open_result) set \<Rightarrow> string \<Rightarrow> bool" where
  "configured_text opts files text \<longleftrightarrow>
     text \<in> set (opt_subnets opts) \<or>
     trim_space (opt_target_file opts) \<noteq> [] \<and>
     (\<exists>open \<in> files. \<exists>data l. open (trim_space (opt_target_file opts)) = Opened data None \<and>
        l \<in> set (raw_lines data) \<and> target_line l \<and> text = line_value l)"

lemma app_before_targets_from:
  assumes "app_before api env opts st = (None, st')" "he_open env \<in> files"
  shows "targets_from (static_cli_targets (ap_static st')) (trim_space (opt_target_file opts)) files (ap_static st')"
proof -
  obtain ps where ps: "static_targets (ap_static st') = static_cli_targets (ap_static st') @ ps"
    "if static_target_file (ap_static st') = [] then ps = []
     else read_static_target_file (he_open env) (static_target_file (ap_static st')) = Inr ps"
    using app_before_targets [OF assms(1)] by blast
  moreover have "static_target_file (ap_static st') = trim_space (opt_target_file opts)"
    using app_before_ok [OF assms(1)] by blast
  ultimately show ?thesis
    using assms(2) by (auto simp: targets_from_def read_static_target_file_def split: if_splits)
qed

lemma targets_from_texts:
  assumes "app_before api env opts ap0 = (None, ap)"
    and "targets_from (static_cli_targets (ap_static ap)) (trim_space (opt_target_file opts)) files st"
    and "p \<in> set (static_targets st)"
  obtains s where "configured_text opts files s" "parse_static_target s = Inr p"
proof -
  let ?path = "trim_space (opt_target_file opts)"
  have cli: "\<exists>text \<in> set (opt_subnets opts). parse_static_target text = Inr p"
    if p: "p \<in> set (static_cli_targets (ap_static ap))"
  proof -
    obtain s where s: "s \<in> set (opt_subnets opts)" "p = projr (parse_static_target s)"
      "is_ok (parse_static_target s)"
      using app_before_ok [OF assms(1)] p by (auto simp: list_all_iff)
    then show ?thesis using ok_Inr by blast
  qed
  from assms(2) obtain ps where ps: "static_targets st = static_cli_targets (ap_static ap) @ ps"
    "ps = [] \<or> ?path \<noteq> [] \<and> (\<exists>open \<in> files. \<exists>am. read_static_target_file_internal open ?path am = Inr ps)"
    by (auto simp: targets_from_def)
  show ?thesis
  proof (cases "p \<in> set ps")
    case False
    with ps(1) assms(3) cli that show ?thesis by (auto simp: configured_text_def)
  next
    case True
    with ps(2) obtain "open" data where o: "open \<in> files" "?path \<noteq> []" "open ?path = Opened data None"
      "list_all line_ok (raw_lines data)" "ps = map line_target (filter target_line (raw_lines data))"
      by (auto simp: read_internal_accepts)
    from True o(5) obtain l where l: "l \<in> set (raw_lines data)" "target_line l" "p = line_target l" by auto
    with o(4) have "parse_static_target (line_value l) = Inr p"
      by (simp add: list_all_iff line_ok_def line_target_def ok_Inr)
    moreover have "configured_text opts files (line_value l)"
      using o(1-3) l(1,2) unfolding configured_text_def by blast
    ultimately show ?thesis using that by blast
  qed
qed

section \<open>Properties\<close>

text \<open>C18: the preflight. When it succeeds, the published targets are those of the command line, in
  their order, followed by those of the target file, all well-formed and allowed on the platform,
  with the set built from them; the poll interval is positive; the ready file, if there is one, was
  emptied; and there is at least one interface candidate, all usable.\<close>

theorem preflight_establishes:
  assumes "app_before api env opts st = (None, st')"
  shows "static_inv api (ap_static st') \<and> 0 < ap_reload_every st' \<and>
    list_all (\<lambda>s. is_ok (parse_static_target s)) (opt_subnets opts) \<and>
    (\<exists>ps. static_targets (ap_static st') = map (\<lambda>s. projr (parse_static_target s)) (opt_subnets opts) @ ps \<and>
       (if trim_space (opt_target_file opts) = [] then ps = []
        else read_static_target_file (he_open env) (trim_space (opt_target_file opts)) = Inr ps)) \<and>
    validate_static_targets_for_platform (he_goos env) (static_targets (ap_static st')) = None \<and>
    (ap_ready_file st' \<noteq> [] \<longrightarrow> ap_files st' (ap_ready_file st') = Some []) \<and>
    ap_candidates st' \<noteq> [] \<and> (\<forall>c \<in> set (ap_candidates st'). usable (cand_if c))"
proof -
  note ok = app_before_ok [OF assms]
  have ready: "ap_files st' (ap_ready_file st') = Some []" if "ap_ready_file st' \<noteq> []"
    using app_before_files [OF assms] clear_ready_ok that by (metis fun_upd_same prod.collapse)
  have cs: "resolve_interface_candidates env (opt_ifname opts) = Inr (ap_candidates st')" using ok by blast
  obtain all where all: "he_interfaces env = Inr all"
    using cs by (cases "he_interfaces env") (auto simp: resolve_interface_candidates_def resolve_interface_candidates_with_def)
  have "ap_candidates st' \<noteq> []" "\<forall>c \<in> set (ap_candidates st'). usable (cand_if c)"
    using resolve_ok resolve_usable cs unfolding resolve_interface_candidates_def all by blast+
  moreover have "\<exists>ps. static_targets (ap_static st') = static_cli_targets (ap_static st') @ ps \<and>
       (if static_target_file (ap_static st') = [] then ps = []
        else read_static_target_file (he_open env) (static_target_file (ap_static st')) = Inr ps)"
    using app_before_targets [OF assms] .
  ultimately show ?thesis using ok ready by auto
qed

text \<open>A stale readiness marker. The marker of an earlier run is emptied before anything else is
  checked: when the file can be written, it is empty after the preflight whether that succeeds or
  fails, for whatever reason, and no other file is touched.\<close>

lemma preflight_clears_stale_marker:
  assumes "he_write env = WriteOk" "trim_space (opt_ready_file opts) \<noteq> []"
  shows "ap_files (snd (app_before api env opts st)) =
    (ap_files st)(trim_space (opt_ready_file opts) \<mapsto> [])"
proof -
  obtain r st' where b: "app_before api env opts st = (r, st')" by force
  show ?thesis
    using app_before_files [OF b] assms by (simp add: b clear_responder_ready_file_def)
qed

definition sample_env :: host_env where
  "sample_env = \<lparr>he_goos = ''linux'', he_write = WriteOk, he_open = (\<lambda>_. Opened ''::8'' None),
     he_interfaces = Inr sample_interfaces, he_by_index = (\<lambda>i. Inr (sample_interfaces ! nat (i - 1))),
     he_routes = Inr [2], he_addrs = (\<lambda>_. Inr [])\<rparr>"

definition sample_options :: "int \<Rightarrow> cli_options" where
  "sample_options interval = \<lparr>opt_ifname = ''auto'', opt_subnets = [''::7''], opt_target_file = ''/t'',
     opt_reload_interval = interval, opt_ready_file = '' /run/ready '', opt_docker = [], opt_cni = [],
     opt_cni_dir = ''/var/lib/cni/networks''\<rparr>"

definition sample_app :: "ipset_op list app_state" where
  "sample_app = \<lparr>ap_static = \<lparr>target_subnets = None, static_targets = [], static_cli_targets = [],
       static_target_file = []\<rparr>, ap_ready_file = [], ap_files = (\<lambda>_. Some ''eth9''), ap_reload_every = 0,
     ap_docker = [], ap_cni = [], ap_cni_dir = [], ap_candidates = []\<rparr>"

theorem preflight_establishes_witness:
  "static_inv ref_ipset (ap_static (snd (app_before ref_ipset sample_env (sample_options 5) sample_app))) \<and>
   ap_candidates (snd (app_before ref_ipset sample_env (sample_options 5) sample_app)) \<noteq> []"
proof -
  let ?r = "app_before ref_ipset sample_env (sample_options 5) sample_app"
  have "fst ?r = None" by code_simp
  then have r: "?r = (None, snd ?r)" by (metis prod.collapse)
  show ?thesis using preflight_establishes [OF r] by blast
qed

end
