(* ===== verification/Concurrent_Refresh.thy ===== *)
theory Concurrent_Refresh
  imports Active_Ips
begin

text \<open>
  \<open>replaceActiveIPSource\<close> of \<open>active_ips.go\<close> as it runs beside other calls of itself: the Docker
  listener and the CNI loop are goroutines of their own. \<open>Active_Ips\<close> has a call as one function; here it is a
  thread whose every access to the shared variables is one step, so that any interleaving of the
  steps of any number of calls is a run. The theorems say that the lock makes the calls look as if
  they ran one after the other, that the signal of a change is never lost, and that no call waits
  for ever.
\<close>

section \<open>State\<close>

text \<open>
  The arguments of a call, with the order in which its \<open>range\<close> statements visit the maps, and
  where the call is. The arguments of the constructors are its local variables: \<open>changed\<close>,
  \<open>newAddresses\<close> (for \<open>Announcing\<close>, those still to publish) and the set it built. The map \<open>next\<close> depends on the arguments only.
\<close>

record refresh_call =
  rc_source :: string
  rc_addresses :: "addr list"
  rc_order :: "nat \<Rightarrow> addr set \<Rightarrow> addr list"

datatype 's refresh_pc =
    Called
  | Locked
  | Compared bool "addr list"
  | Written bool "addr list"
  | Built bool "addr list" 's
  | Stored bool "addr list"
  | Unlocked bool "addr list"
  | Announcing "addr list"
  | Returned

text \<open>
  The shared variables: those of \<open>active_state\<close> and the holder of \<open>activeIPSourceMu\<close>. The rest is not
  in the program: the order in which the calls stored the published set, and, for the goroutine that waits for
  changes, whether it took a signal and has not looked yet, and what it saw when it last looked.
\<close>

record 's shared = "'s active_state" +
  source_mu :: "nat option"
  pcs :: "nat \<Rightarrow> 's refresh_pc"
  store_log :: "nat list"
  reader_woken :: bool
  reader_seen :: "addr list"

definition init_shared :: "'s ipset_api \<Rightarrow> 's shared" where
  "init_shared api = active_state.extend (init_active api)
     \<lparr>source_mu = None, pcs = (\<lambda>_. Called), store_log = [], reader_woken = False, reader_seen = []\<rparr>"

section \<open>The steps\<close>

definition at_pc :: "nat \<Rightarrow> 's refresh_pc \<Rightarrow> 's shared \<Rightarrow> 's shared" where
  "at_pc i pc c = c\<lparr>pcs := (pcs c)(i := pc)\<rparr>"

text \<open>One step of a call. Taking the lock is the only one that may have to wait.\<close>

fun refresh_advance ::
  "'s ipset_api \<Rightarrow> string \<Rightarrow> refresh_call \<Rightarrow> nat \<Rightarrow> 's refresh_pc \<Rightarrow> 's shared \<Rightarrow> 's shared option"
where
  "refresh_advance api goos call i Called c =
     (if source_mu c = None then Some (at_pc i Locked (c\<lparr>source_mu := Some i\<rparr>)) else None)"
| "refresh_advance api goos call i Locked c =
     (let next = accepted_addresses (rc_addresses call);
          previous = source_addresses (active_ip_sources c) (rc_source call)
      in Some (at_pc i (Compared (\<not> same_address_set previous next)
           (filter (\<lambda>a. a \<notin> previous) (rc_order call 0 next))) c))"
| "refresh_advance api goos call i (Compared changed new) c =
     Some (at_pc i (Written changed new)
       (c\<lparr>active_ip_sources := AList.update (rc_source call) (accepted_addresses (rc_addresses call))
          (active_ip_sources c)\<rparr>))"
| "refresh_advance api goos call i (Written changed new) c =
     Some (at_pc i (Built changed new
       (fst (ips_build api (concat (map (\<lambda>(_, A). map AddAddr (rc_order call 1 A)) (active_ip_sources c)))))) c)"
| "refresh_advance api goos call i (Built changed new result) c =
     Some (at_pc i (Stored changed new) (c\<lparr>active_ips := result, store_log := store_log c @ [i]\<rparr>))"
| "refresh_advance api goos call i (Stored changed new) c =
     Some (at_pc i (Unlocked changed new) (c\<lparr>source_mu := None\<rparr>))"
| "refresh_advance api goos call i (Unlocked changed new) c =
     Some (at_pc i (Announcing new) (signal_change changed c))"
| "refresh_advance api goos call i (Announcing []) c = Some (at_pc i Returned c)"
| "refresh_advance api goos call i (Announcing (a # as)) c =
     Some (at_pc i (Announcing as) (c\<lparr>new_active_ip := publish_new_active_ip goos a (new_active_ip c)\<rparr>))"
| "refresh_advance api goos call i Returned c = None"

definition refresher ::
  "'s ipset_api \<Rightarrow> string \<Rightarrow> refresh_call list \<Rightarrow> nat \<Rightarrow> 's shared \<Rightarrow> 's shared option"
where
  "refresher api goos calls i c =
     (if i < length calls then refresh_advance api goos (calls ! i) i (pcs c i) c else None)"

text \<open>
  A step of the program: a call moves; the waiting goroutine takes a signal, as the main loop of
  \<open>runtime_bsd.go\<close> does; it takes a snapshot, at any time, since the reload of the target file takes one
  too, and in one step, since \<open>activeAddressSnapshot\<close> holds the lock; or a new address is received
  for its announcement.
\<close>

inductive conc_step ::
  "'s ipset_api \<Rightarrow> string \<Rightarrow> refresh_call list \<Rightarrow> 's shared \<Rightarrow> 's shared \<Rightarrow> bool"
  for api :: "'s ipset_api" and goos :: string and calls :: "refresh_call list"
where
  refresh: "refresher api goos calls i c = Some c' \<Longrightarrow> conc_step api goos calls c c'"
| wake: "active_ips_changed c \<noteq> [] \<Longrightarrow> \<not> reader_woken c \<Longrightarrow>
    conc_step api goos calls c
      (c\<lparr>active_ips_changed := tl (active_ips_changed c), reader_woken := True\<rparr>)"
| look: "source_mu c = None \<Longrightarrow> map_order ord \<Longrightarrow>
    conc_step api goos calls c
      (c\<lparr>reader_seen := active_address_snapshot ord c, reader_woken := False\<rparr>)"
| receive: "new_active_ip c = ip # rest \<Longrightarrow>
    conc_step api goos calls c (c\<lparr>new_active_ip := rest\<rparr>)"

abbreviation conc_run ::
  "'s ipset_api \<Rightarrow> string \<Rightarrow> refresh_call list \<Rightarrow> 's shared \<Rightarrow> 's shared \<Rightarrow> bool"
where
  "conc_run api goos calls \<equiv> (conc_step api goos calls)\<^sup>*\<^sup>*"

text \<open>The reference: whole calls, one after the other.\<close>

definition sequential ::
  "'s ipset_api \<Rightarrow> string \<Rightarrow> refresh_call list \<Rightarrow> nat list \<Rightarrow> 's active_state"
where
  "sequential api goos calls order =
     fold (\<lambda>i. replace_active_ip_source api goos (rc_order (calls ! i)) (rc_source (calls ! i))
        (rc_addresses (calls ! i))) order (init_active api)"

lemma at_pc_fields [simp]:
  "pcs (at_pc i pc c) = (pcs c)(i := pc)" "source_mu (at_pc i pc c) = source_mu c"
  "store_log (at_pc i pc c) = store_log c" "reader_woken (at_pc i pc c) = reader_woken c"
  "reader_seen (at_pc i pc c) = reader_seen c" "active_ips (at_pc i pc c) = active_ips c"
  "active_ip_sources (at_pc i pc c) = active_ip_sources c"
  "active_ips_changed (at_pc i pc c) = active_ips_changed c" "new_active_ip (at_pc i pc c) = new_active_ip c"
  by (simp_all add: at_pc_def)

section \<open>The lock\<close>

fun critical :: "'s refresh_pc \<Rightarrow> bool" where
  "critical Locked = True"
| "critical (Compared _ _) = True"
| "critical (Written _ _) = True"
| "critical (Built _ _ _) = True"
| "critical (Stored _ _) = True"
| "critical _ = False"

fun past_store :: "'s refresh_pc \<Rightarrow> bool" where
  "past_store (Stored _ _) = True"
| "past_store (Unlocked _ _) = True"
| "past_store (Announcing _) = True"
| "past_store Returned = True"
| "past_store _ = False"

text \<open>The holder of the lock is the one call in the critical section; a call is in the log once it has stored.\<close>

definition lock_inv :: "refresh_call list \<Rightarrow> 's shared \<Rightarrow> bool" where
  "lock_inv calls c \<longleftrightarrow>
     (\<forall>i. critical (pcs c i) \<longleftrightarrow> source_mu c = Some i) \<and>
     distinct (store_log c) \<and>
     (\<forall>i. i \<in> set (store_log c) \<longleftrightarrow> past_store (pcs c i)) \<and>
     (\<forall>i \<ge> length calls. pcs c i = Called)"

lemma refresher_cases:
  assumes "refresher api goos calls i c = Some c'"
  obtains "i < length calls" "refresh_advance api goos (calls ! i) i (pcs c i) c = Some c'"
  using assms by (auto simp: refresher_def split: if_splits)

lemma refresher_lock:
  assumes "refresher api goos calls i c = Some c'" "lock_inv calls c"
  shows "lock_inv calls c'"
  using assms(1)
proof (rule refresher_cases)
  assume i: "i < length calls" and s: "refresh_advance api goos (calls ! i) i (pcs c i) c = Some c'"
  have mu: "critical (pcs c i) \<longleftrightarrow> source_mu c = Some i" using assms(2) by (simp add: lock_inv_def)
  show ?thesis
  proof (cases "pcs c i")
    case (Announcing as)
    with mu show ?thesis using s assms(2) i
      by (cases as) (auto simp: lock_inv_def at_pc_def split: if_splits)
  qed (use s assms(2) i mu in \<open>auto simp: lock_inv_def at_pc_def signal_change_def Let_def split: if_splits\<close>)
qed

lemma step_lock: "conc_step api goos calls c c' \<Longrightarrow> lock_inv calls c \<Longrightarrow> lock_inv calls c'"
proof (induction rule: conc_step.induct)
  case (refresh i c c')
  then show ?case by (rule refresher_lock)
qed (simp_all add: lock_inv_def)

lemma init_lock: "lock_inv calls (init_shared api)"
  by (simp add: lock_inv_def init_shared_def active_state.defs)

section \<open>The store\<close>

definition refresh_orders :: "refresh_call list \<Rightarrow> bool" where
  "refresh_orders calls = list_all (\<lambda>call. map_order (rc_order call)) calls"

lemma sequential_snoc:
  "sequential api goos calls (is @ [i]) =
     replace_active_ip_source api goos (rc_order (calls ! i)) (rc_source (calls ! i))
       (rc_addresses (calls ! i)) (sequential api goos calls is)"
  by (simp add: sequential_def)

lemma refresh_order: "refresh_orders calls \<Longrightarrow> i < length calls \<Longrightarrow> map_order (rc_order (calls ! i))"
  by (simp add: refresh_orders_def list_all_length)

lemma sequential_inv:
  assumes "refresh_orders calls" "\<forall>i \<in> set is. i < length calls"
  shows "active_inv (sequential api goos calls is)"
  using assms(2)
proof (induction "is" rule: rev_induct)
  case Nil
  then show ?case by (simp add: sequential_def init_active_inv)
next
  case (snoc i "is")
  then have "map_order (rc_order (calls ! i))" by (simp add: refresh_order assms(1))
  with snoc show ?case by (simp add: sequential_snoc map_order.replace_active_inv)
qed

text \<open>What the holder of the lock has done so far, in terms of the calls that have stored.\<close>

fun section_ok ::
  "'s ipset_api \<Rightarrow> string \<Rightarrow> refresh_call list \<Rightarrow> nat list \<Rightarrow> (string \<times> addr set) list \<Rightarrow> nat \<Rightarrow>
   's refresh_pc \<Rightarrow> bool"
where
  "section_ok api goos calls log sources i (Compared changed new) \<longleftrightarrow>
     (changed \<longleftrightarrow> source_addresses sources (rc_source (calls ! i)) \<noteq>
        accepted_addresses (rc_addresses (calls ! i)))"
| "section_ok api goos calls log sources i (Written changed new) \<longleftrightarrow>
     sources = active_ip_sources (sequential api goos calls (log @ [i]))"
| "section_ok api goos calls log sources i (Built changed new result) \<longleftrightarrow>
     sources = active_ip_sources (sequential api goos calls (log @ [i])) \<and>
     result = active_ips (sequential api goos calls (log @ [i]))"
| "section_ok api goos calls log sources i _ \<longleftrightarrow> True"

fun wrote :: "'s refresh_pc \<Rightarrow> bool" where
  "wrote (Written _ _) = True"
| "wrote (Built _ _ _) = True"
| "wrote _ = False"

definition store_inv :: "'s ipset_api \<Rightarrow> string \<Rightarrow> refresh_call list \<Rightarrow> 's shared \<Rightarrow> bool" where
  "store_inv api goos calls c \<longleftrightarrow>
     active_ips c = active_ips (sequential api goos calls (store_log c)) \<and>
     (\<forall>i. section_ok api goos calls (store_log c) (active_ip_sources c) i (pcs c i)) \<and>
     ((\<forall>i. \<not> wrote (pcs c i)) \<longrightarrow>
        active_ip_sources c = active_ip_sources (sequential api goos calls (store_log c)))"

lemma wrote_critical: "wrote pc \<Longrightarrow> critical pc"
  by (cases pc) auto

lemma outside_section: "\<not> critical pc \<Longrightarrow> section_ok api goos calls log sources i pc"
  by (cases pc) auto

text \<open>Only the holder of the lock is in the critical section.\<close>

lemma only_holder:
  "lock_inv calls c \<Longrightarrow> critical (pcs c i) \<Longrightarrow> j \<noteq> i \<Longrightarrow> \<not> critical (pcs c j)"
  by (simp add: lock_inv_def)

lemma store_log_bound: "lock_inv calls c \<Longrightarrow> \<forall>i \<in> set (store_log c). i < length calls"
  unfolding lock_inv_def by (metis not_le past_store.simps(5))

lemma sources_distinct:
  assumes "refresh_orders calls" "lock_inv calls c" "store_inv api goos calls c"
  shows "distinct (map fst (active_ip_sources c)) \<and>
    (\<forall>(source, A) \<in> set (active_ip_sources c). source_ok A)"
proof -
  have seq: "active_inv (sequential api goos calls (store_log c))"
    using sequential_inv [OF assms(1)] store_log_bound [OF assms(2)] by blast
  show ?thesis
  proof (cases "\<exists>i. wrote (pcs c i)")
    case True
    then obtain i where i: "wrote (pcs c i)" by blast
    then have "i < length calls" using assms(2) unfolding lock_inv_def by (metis not_le wrote.simps(3))
    then have "active_inv (sequential api goos calls (store_log c @ [i]))"
      using store_log_bound [OF assms(2)] by (intro sequential_inv [OF assms(1)]) simp
    moreover have "active_ip_sources c = active_ip_sources (sequential api goos calls (store_log c @ [i]))"
    proof -
      have "section_ok api goos calls (store_log c) (active_ip_sources c) i (pcs c i)"
        using assms(3) by (simp add: store_inv_def)
      with i show ?thesis by (cases "pcs c i") simp_all
    qed
    ultimately show ?thesis by (simp add: active_inv_def)
  next
    case False
    with assms(3) seq show ?thesis by (simp add: store_inv_def active_inv_def)
  qed
qed

text \<open>A step inside the critical section, or outside it, keeps what the other calls know.\<close>

lemma store_inv_inside:
  assumes "lock_inv calls c" "critical (pcs c i)"
    and "active_ips c' = active_ips (sequential api goos calls (store_log c'))"
    and "pcs c' = (pcs c)(i := pc)"
    and "section_ok api goos calls (store_log c') (active_ip_sources c') i pc"
    and "\<not> wrote pc \<Longrightarrow> active_ip_sources c' = active_ip_sources (sequential api goos calls (store_log c'))"
  shows "store_inv api goos calls c'"
proof -
  have other: "\<not> critical (pcs c j)" if "j \<noteq> i" for j using assms(1,2) that by (rule only_holder)
  then have "section_ok api goos calls (store_log c') (active_ip_sources c') j (pcs c' j)" for j
    using assms(4,5) by (auto intro: outside_section)
  with assms(3,4,6) other wrote_critical show ?thesis unfolding store_inv_def by (auto split: if_splits)
qed

lemma store_inv_outside:
  assumes "store_inv api goos calls c" "\<not> critical (pcs c i)" "pcs c' = (pcs c)(i := pc)"
    and "pc = Locked \<or> \<not> critical pc"
    and "active_ips c' = active_ips c" "active_ip_sources c' = active_ip_sources c" "store_log c' = store_log c"
  shows "store_inv api goos calls c'"
proof -
  have pc: "\<not> wrote pc" "section_ok api goos calls log sources i pc" for log sources
    using assms(4) wrote_critical outside_section by auto
  have "wrote (pcs c' j) = wrote (pcs c j)" for j
    using assms(2,3) pc(1) wrote_critical by auto
  moreover have "section_ok api goos calls (store_log c) (active_ip_sources c) j (pcs c' j)" for j
    using assms(1,3) pc(2) by (simp add: store_inv_def)
  ultimately show ?thesis using assms(1,5-7) by (simp add: store_inv_def)
qed

text \<open>The comparison with the previous addresses finds out whether they differ.\<close>

lemma compared_ok:
  assumes "refresh_orders calls" "lock_inv calls c" "store_inv api goos calls c"
    and "changed \<longleftrightarrow> \<not> same_address_set (source_addresses (active_ip_sources c) (rc_source (calls ! i)))
      (accepted_addresses (rc_addresses (calls ! i)))"
  shows "section_ok api goos calls (store_log c) (active_ip_sources c) i (Compared changed new)"
proof -
  have "source_ok (source_addresses (active_ip_sources c) (rc_source (calls ! i)))"
    using sources_distinct [OF assms(1-3)] by (intro source_addresses_ok) blast
  then have "same_address_set (source_addresses (active_ip_sources c) (rc_source (calls ! i)))
      (accepted_addresses (rc_addresses (calls ! i))) \<longleftrightarrow>
    source_addresses (active_ip_sources c) (rc_source (calls ! i)) =
      accepted_addresses (rc_addresses (calls ! i))"
    using accepted_source_ok by (intro same_address_set_iff) (auto simp: source_ok_def)
  with assms(4) show ?thesis by simp
qed

lemma refresher_store:
  assumes "refresher api goos calls i c = Some c'" "refresh_orders calls"
    and "lock_inv calls c" "store_inv api goos calls c"
  shows "store_inv api goos calls c'"
  using assms(1)
proof (rule refresher_cases)
  assume i: "i < length calls" and s: "refresh_advance api goos (calls ! i) i (pcs c i) c = Some c'"
  note inside = store_inv_inside [OF assms(3), of i] and outside = store_inv_outside [OF assms(4), of i]
  have stored: "active_ips c = active_ips (sequential api goos calls (store_log c))"
    and mine: "section_ok api goos calls (store_log c) (active_ip_sources c) i (pcs c i)"
    using assms(4) by (simp_all add: store_inv_def)
  have clean: "active_ip_sources c = active_ip_sources (sequential api goos calls (store_log c))"
    if "critical (pcs c i)" "\<not> wrote (pcs c i)"
    using assms(4) only_holder [OF assms(3) that(1)] that(2) wrote_critical unfolding store_inv_def by metis
  show ?thesis
  proof (cases "pcs c i")
    case Called
    then show ?thesis using s by (intro outside) (auto split: if_splits)
  next
    case Locked
    then obtain changed new where c': "c' = at_pc i (Compared changed new) c"
      and "changed \<longleftrightarrow> \<not> same_address_set (source_addresses (active_ip_sources c) (rc_source (calls ! i)))
        (accepted_addresses (rc_addresses (calls ! i)))"
      using s by (auto simp: Let_def)
    note ok = compared_ok [OF assms(2-4) this(2)]
    show ?thesis unfolding c'
      by (rule inside [where pc = "Compared changed new"])
        (use Locked stored clean ok in \<open>simp_all only: at_pc_fields critical.simps wrote.simps not_False_eq_True\<close>)
  next
    case (Compared changed new)
    with s stored clean show ?thesis
      by (intro inside) (auto simp: sequential_snoc replace_fields)
  next
    case (Written changed new)
    with s stored mine show ?thesis
      by (intro inside) (auto simp: sequential_snoc replace_fields)
  next
    case (Built changed new result)
    with s mine show ?thesis by (intro inside) auto
  next
    case (Stored changed new)
    with s stored clean show ?thesis by (intro inside) auto
  next
    case (Unlocked changed new)
    with s show ?thesis by (intro outside) (auto simp: signal_change_def)
  next
    case (Announcing as)
    with s show ?thesis by (cases as) (auto intro!: outside)
  next
    case Returned
    with s show ?thesis by simp
  qed
qed

lemma step_store:
  "conc_step api goos calls c c' \<Longrightarrow> refresh_orders calls \<Longrightarrow> lock_inv calls c \<Longrightarrow>
   store_inv api goos calls c \<Longrightarrow> store_inv api goos calls c'"
proof (induction rule: conc_step.induct)
  case (refresh i c c')
  then show ?case by (rule refresher_store)
qed (simp_all add: store_inv_def)

lemma init_store: "store_inv api goos calls (init_shared api)"
  by (simp add: store_inv_def init_shared_def active_state.defs sequential_def init_active_def)

section \<open>The signal\<close>

fun signal_pending :: "'s refresh_pc \<Rightarrow> bool" where
  "signal_pending (Written changed _) = changed"
| "signal_pending (Built changed _ _) = changed"
| "signal_pending (Stored changed _) = changed"
| "signal_pending (Unlocked changed _) = changed"
| "signal_pending _ = False"

text \<open>
  The waiting goroutine knows the current addresses, or it will be told: a signal is in the channel, it
  has taken one and will look, or a call that wrote a change has not signalled yet.
\<close>

definition signal_inv :: "'s shared \<Rightarrow> bool" where
  "signal_inv c \<longleftrightarrow>
     reader_seen c = sorted_list_of_set (source_union (active_ip_sources c)) \<or>
     active_ips_changed c \<noteq> [] \<or> reader_woken c \<or> (\<exists>i. signal_pending (pcs c i))"

lemma signal_inv_frame:
  assumes "signal_inv c" "pcs c' = (pcs c)(i := pc)" "signal_pending (pcs c i) \<Longrightarrow> signal_pending pc"
    and "source_union (active_ip_sources c') = source_union (active_ip_sources c)"
    and "active_ips_changed c' = active_ips_changed c" "reader_woken c' = reader_woken c"
    and "reader_seen c' = reader_seen c"
  shows "signal_inv c'"
proof -
  have "\<exists>j. signal_pending (pcs c' j)" if "signal_pending (pcs c j)" for j
    using that assms(2,3) by (cases "j = i") auto
  with assms show ?thesis unfolding signal_inv_def by metis
qed

text \<open>Writing what is there already changes no address.\<close>

lemma source_union_same:
  assumes "distinct (map fst m)" "source_addresses m k = A"
  shows "source_union (AList.update k A m) = source_union m"
proof -
  have d: "distinct (map fst (AList.update k A m))" using assms(1) by (simp add: distinct_update)
  have "source_addresses (AList.update k A m) s = source_addresses m s" for s
    using assms(2) by (auto simp: source_addresses_update)
  then show ?thesis
    using source_union_iff [OF assms(1)] source_union_iff [OF d] by blast
qed

lemma refresher_signal:
  assumes "refresher api goos calls i c = Some c'" "refresh_orders calls"
    and "lock_inv calls c" "store_inv api goos calls c" "signal_inv c"
  shows "signal_inv c'"
  using assms(1)
proof (rule refresher_cases)
  assume i: "i < length calls" and s: "refresh_advance api goos (calls ! i) i (pcs c i) c = Some c'"
  note frame = signal_inv_frame [OF assms(5), of _ i]
  show ?thesis
  proof (cases "pcs c i")
    case Called
    with s show ?thesis by (intro frame) (auto split: if_splits)
  next
    case (Compared changed new)
    show ?thesis
    proof (cases changed)
      case True
      with s Compared have "pcs c' i = Written True new" by auto
      then have "signal_pending (pcs c' i)" by simp
      then show ?thesis unfolding signal_inv_def by blast
    next
      case False
      have "section_ok api goos calls (store_log c) (active_ip_sources c) i (pcs c i)"
        using assms(4) by (simp add: store_inv_def)
      with False Compared have same: "source_addresses (active_ip_sources c) (rc_source (calls ! i)) =
          accepted_addresses (rc_addresses (calls ! i))" by simp
      have "distinct (map fst (active_ip_sources c))" using sources_distinct [OF assms(2-4)] by blast
      note union = source_union_same [OF this same]
      have c': "c' = at_pc i (Written changed new) (c\<lparr>active_ip_sources := AList.update (rc_source (calls ! i))
          (accepted_addresses (rc_addresses (calls ! i))) (active_ip_sources c)\<rparr>)"
        using s Compared by simp
      show ?thesis using Compared union unfolding c' by (intro frame) simp_all
    qed
  next
    case (Unlocked changed new)
    show ?thesis
    proof (cases changed)
      case True
      with s Unlocked have "active_ips_changed c' \<noteq> []"
        by (auto simp: signal_change_def try_send_def split: if_splits)
      then show ?thesis by (simp add: signal_inv_def)
    next
      case False
      with s Unlocked show ?thesis by (intro frame) (auto simp: signal_change_def)
    qed
  next
    case (Announcing as)
    with s show ?thesis by (cases as) (auto intro!: frame)
  qed (use s in \<open>auto simp: Let_def intro!: frame\<close>)
qed

lemma step_signal:
  "conc_step api goos calls c c' \<Longrightarrow> refresh_orders calls \<Longrightarrow> lock_inv calls c \<Longrightarrow>
   store_inv api goos calls c \<Longrightarrow> signal_inv c \<Longrightarrow> signal_inv c'"
proof (induction rule: conc_step.induct)
  case (refresh i c c')
  then show ?case by (rule refresher_signal)
next
  case (look c ord)
  have "finite (source_union (active_ip_sources c))"
    using sources_distinct [OF look(3-5)] by (auto simp: source_union_def source_ok_def)
  then have "active_address_snapshot ord c = sorted_list_of_set (source_union (active_ip_sources c))"
    unfolding active_address_snapshot_def
    by (intro sorted_distinct_set_unique) (simp_all add: map_order.set_ord [OF look(2)] map_order.distinct_ord [OF look(2)])
  then show ?case by (simp add: signal_inv_def)
qed (simp_all add: signal_inv_def)

lemma init_signal: "signal_inv (init_shared api)"
  by (simp add: signal_inv_def init_shared_def active_state.defs init_active_def source_union_def)

definition conc_inv :: "'s ipset_api \<Rightarrow> string \<Rightarrow> refresh_call list \<Rightarrow> 's shared \<Rightarrow> bool" where
  "conc_inv api goos calls c \<longleftrightarrow> lock_inv calls c \<and> store_inv api goos calls c \<and> signal_inv c"

lemma conc_run_inv:
  assumes "conc_run api goos calls (init_shared api) c" "refresh_orders calls"
  shows "conc_inv api goos calls c"
  using assms(1)
proof (induction rule: rtranclp_induct)
  case base
  show ?case by (simp add: conc_inv_def init_lock init_store init_signal)
next
  case (step y z)
  with assms(2) show ?case
    by (auto simp: conc_inv_def intro: step_lock step_store step_signal)
qed

lemma free_lock_clean:
  assumes "lock_inv calls c" "store_inv api goos calls c" "source_mu c = None"
  shows "active_ip_sources c = active_ip_sources (sequential api goos calls (store_log c))"
proof -
  have "\<not> wrote (pcs c i)" for i using assms(1,3) wrote_critical unfolding lock_inv_def by force
  with assms(2) show ?thesis by (simp add: store_inv_def)
qed

section \<open>What the published set holds\<close>

text \<open>What the last call of a source in a sequence of calls reported.\<close>

definition last_report :: "refresh_call list \<Rightarrow> nat list \<Rightarrow> string \<Rightarrow> addr set" where
  "last_report calls order source =
     (case find (\<lambda>i. rc_source (calls ! i) = source) (rev order) of
        None \<Rightarrow> {}
      | Some i \<Rightarrow> accepted_addresses (rc_addresses (calls ! i)))"

lemma sequential_sources:
  "source_addresses (active_ip_sources (sequential api goos calls order)) source = last_report calls order source"
proof (induction order rule: rev_induct)
  case Nil
  then show ?case by (simp add: sequential_def init_active_def source_addresses_def last_report_def)
next
  case (snoc i order)
  then show ?case
    by (simp add: sequential_snoc replace_fields source_addresses_update last_report_def)
qed

lemma sequential_published:
  assumes "ipset api" "refresh_orders calls" "\<forall>i \<in> set order. i < length calls"
  shows "published api (sequential api goos calls order)"
proof (cases order rule: rev_cases)
  case Nil
  then show ?thesis
    using address_store.init_published [OF address_store.intro [OF assms(1) so.map_order_axioms]]
    by (simp add: sequential_def)
next
  case (snoc xs i)
  with assms(2,3) have "map_order (rc_order (calls ! i))" by (simp add: refresh_order)
  moreover have "active_inv (sequential api goos calls xs)"
    using assms(3) snoc by (intro sequential_inv [OF assms(2)]) simp
  ultimately show ?thesis
    unfolding snoc sequential_snoc
    by (intro address_store.replace_published [OF address_store.intro [OF assms(1)]])
qed

lemma last_report_zone_free:
  assumes "list_all (\<lambda>call. zone_free (rc_addresses call)) calls" "\<forall>i \<in> set order. i < length calls"
    and "a \<in> last_report calls order source"
  shows "addr_zone a = []"
proof -
  obtain i where "i \<in> set order" "a \<in> accepted_addresses (rc_addresses (calls ! i))"
    using assms(3) by (auto simp: last_report_def dest!: find_SomeD split: option.splits)
  with assms(1,2) show ?thesis by (auto simp: list_all_length zone_free_accepted)
qed

lemma conc_view:
  assumes "ipset api" "conc_inv api goos calls c" "refresh_orders calls"
    and "list_all (\<lambda>call. zone_free (rc_addresses call)) calls"
  shows "ips_contains api (active_ips c) a \<longleftrightarrow> (\<exists>source. a \<in> last_report calls (store_log c) source)"
proof -
  let ?seq = "sequential api goos calls (store_log c)"
  have log: "\<forall>i \<in> set (store_log c). i < length calls"
    using assms(2) store_log_bound by (auto simp: conc_inv_def)
  have inv: "active_inv ?seq" by (rule sequential_inv [OF assms(3) log])
  then have union: "b \<in> source_union (active_ip_sources ?seq) \<longleftrightarrow> (\<exists>source. b \<in> last_report calls (store_log c) source)" for b
    by (simp add: active_inv_def source_union_iff sequential_sources)
  then have "\<forall>b \<in> source_union (active_ip_sources ?seq). addr_zone b = []"
    using last_report_zone_free [OF assms(4) log] by blast
  then have "ips_contains api (active_ips ?seq) a \<longleftrightarrow> a \<in> source_union (active_ip_sources ?seq)"
    using sequential_published [OF assms(1,3) log] by (simp add: published_def)
  moreover have "active_ips c = active_ips ?seq" using assms(2) by (simp add: conc_inv_def store_inv_def)
  ultimately show ?thesis using union by simp
qed

lemma last_report_distinct:
  assumes "distinct (map rc_source calls)" "\<forall>i. i \<in> set order \<longleftrightarrow> i < length calls"
  shows "(\<exists>source. a \<in> last_report calls order source) \<longleftrightarrow>
    (\<exists>call \<in> set calls. a \<in> accepted_addresses (rc_addresses call))"
proof
  assume "\<exists>source. a \<in> last_report calls order source"
  then obtain source i where "find (\<lambda>i. rc_source (calls ! i) = source) (rev order) = Some i"
    "a \<in> accepted_addresses (rc_addresses (calls ! i))"
    by (auto simp: last_report_def split: option.splits)
  moreover from this(1) have "i \<in> set order" by (auto dest: find_SomeD)
  ultimately show "\<exists>call \<in> set calls. a \<in> accepted_addresses (rc_addresses call)"
    using assms(2) by force
next
  assume "\<exists>call \<in> set calls. a \<in> accepted_addresses (rc_addresses call)"
  then obtain i where i: "i < length calls" "a \<in> accepted_addresses (rc_addresses (calls ! i))"
    by (auto simp: in_set_conv_nth)
  let ?f = "find (\<lambda>j. rc_source (calls ! j) = rc_source (calls ! i)) (rev order)"
  have "?f \<noteq> None" using i assms(2) by (auto simp: find_None_iff)
  then obtain j where j: "?f = Some j" by blast
  then have "j \<in> set order" "rc_source (calls ! j) = rc_source (calls ! i)"
    by (auto dest: find_SomeD)
  then have "j = i" using assms(2) i(1) nth_eq_iff_index_eq [OF assms(1), of j i] by simp
  with i j have "a \<in> last_report calls order (rc_source (calls ! i))" by (simp add: last_report_def)
  then show "\<exists>source. a \<in> last_report calls order source" ..
qed

section \<open>Progress\<close>

text \<open>The steps a call still needs, at most.\<close>

fun steps_left :: "refresh_call \<Rightarrow> 's refresh_pc \<Rightarrow> nat" where
  "steps_left call Called = 8 + length (rc_addresses call)"
| "steps_left call Locked = 7 + length (rc_addresses call)"
| "steps_left call (Compared _ new) = 6 + length new"
| "steps_left call (Written _ new) = 5 + length new"
| "steps_left call (Built _ new _) = 4 + length new"
| "steps_left call (Stored _ new) = 3 + length new"
| "steps_left call (Unlocked _ new) = 2 + length new"
| "steps_left call (Announcing new) = 1 + length new"
| "steps_left call Returned = 0"

definition work_left :: "refresh_call list \<Rightarrow> 's shared \<Rightarrow> nat" where
  "work_left calls c = (\<Sum>i<length calls. steps_left (calls ! i) (pcs c i))"

definition refresher_step ::
  "'s ipset_api \<Rightarrow> string \<Rightarrow> refresh_call list \<Rightarrow> 's shared \<Rightarrow> 's shared \<Rightarrow> bool"
where
  "refresher_step api goos calls c c' \<longleftrightarrow> (\<exists>i. refresher api goos calls i c = Some c')"

lemma new_addresses_length:
  assumes "map_order ord"
  shows "length (filter P (ord k (accepted_addresses as))) \<le> length as"
proof -
  have fin: "finite (accepted_addresses as)" using accepted_source_ok by (simp add: source_ok_def)
  have "length (filter P (ord k (accepted_addresses as))) \<le> length (ord k (accepted_addresses as))" by simp
  also have "\<dots> = card (accepted_addresses as)"
    using distinct_card [OF map_order.distinct_ord [OF assms fin]] by (simp add: map_order.set_ord [OF assms fin])
  also have "\<dots> \<le> length as"
    unfolding accepted_addresses_def
    by (rule order_trans [OF card_length], rule order_trans [OF length_filter_le]) simp
  finally show ?thesis .
qed

lemma refresher_pc:
  assumes "refresher api goos calls i c = Some c'" "refresh_orders calls"
  obtains pc where "i < length calls" "pcs c' = (pcs c)(i := pc)"
    "steps_left (calls ! i) pc < steps_left (calls ! i) (pcs c i)"
  using assms(1)
proof (rule refresher_cases)
  assume i: "i < length calls" and s: "refresh_advance api goos (calls ! i) i (pcs c i) c = Some c'"
  have "\<exists>pc. pcs c' = (pcs c)(i := pc) \<and> steps_left (calls ! i) pc < steps_left (calls ! i) (pcs c i)"
  proof (cases "pcs c i")
    case Locked
    with s show ?thesis
      using new_addresses_length [OF refresh_order [OF assms(2) i]]
      by (auto simp: Let_def less_Suc_eq_le)
  next
    case (Announcing as)
    with s show ?thesis by (cases as) auto
  qed (use s in \<open>auto simp: signal_change_def split: if_splits\<close>)
  with i that show thesis by blast
qed

lemma refresher_work:
  assumes "refresher_step api goos calls c c'" "refresh_orders calls"
  shows "work_left calls c' < work_left calls c"
proof -
  obtain i where "refresher api goos calls i c = Some c'" using assms(1) by (auto simp: refresher_step_def)
  then obtain pc where i: "i < length calls" and pcs: "pcs c' = (pcs c)(i := pc)"
    and less: "steps_left (calls ! i) pc < steps_left (calls ! i) (pcs c i)"
    using assms(2) by (rule refresher_pc)
  show ?thesis
    unfolding work_left_def
  proof (rule sum_strict_mono_ex1)
    show "\<forall>j \<in> {..<length calls}. steps_left (calls ! j) (pcs c' j) \<le> steps_left (calls ! j) (pcs c j)"
      using less by (auto simp: pcs)
    show "\<exists>j \<in> {..<length calls}. steps_left (calls ! j) (pcs c' j) < steps_left (calls ! j) (pcs c j)"
      using i less by (auto simp: pcs)
  qed simp
qed

lemma refresher_moves:
  assumes "lock_inv calls c" "i < length calls" "pcs c i \<noteq> Returned"
  obtains c' where "refresher_step api goos calls c c'"
proof -
  have moves: "\<exists>c'. refresh_advance api goos call j pc c = Some c'"
    if "critical pc \<or> pc \<noteq> Returned \<and> source_mu c = None" for call j pc
    using that by (cases "(api, goos, call, j, pc, c)" rule: refresh_advance.cases) (auto simp: Let_def)
  show thesis
  proof (cases "source_mu c")
    case None
    with moves [of "pcs c i"] assms(3) obtain c' where "refresh_advance api goos (calls ! i) i (pcs c i) c = Some c'"
      by blast
    with assms(2) have "refresher api goos calls i c = Some c'" by (simp add: refresher_def)
    then show thesis by (intro that) (auto simp: refresher_step_def)
  next
    case (Some j)
    then have j: "critical (pcs c j)" using assms(1) by (simp add: lock_inv_def)
    then have "j < length calls" using assms(1) unfolding lock_inv_def by (metis critical.simps(6) not_le)
    moreover obtain c' where "refresh_advance api goos (calls ! j) j (pcs c j) c = Some c'"
      using moves j by blast
    ultimately have "refresher api goos calls j c = Some c'" by (simp add: refresher_def)
    then show thesis by (intro that) (auto simp: refresher_step_def)
  qed
qed

lemma refreshers_finish:
  assumes "lock_inv calls c" "refresh_orders calls"
  shows "\<exists>k c'. (refresher_step api goos calls ^^ k) c c' \<and> (\<forall>i<length calls. pcs c' i = Returned)"
  using assms(1)
proof (induction "work_left calls c" arbitrary: c rule: less_induct)
  case less
  show ?case
  proof (cases "\<forall>i<length calls. pcs c i = Returned")
    case True
    then have "(refresher_step api goos calls ^^ 0) c c \<and> (\<forall>i<length calls. pcs c i = Returned)" by simp
    then show ?thesis by blast
  next
    case False
    then obtain i where "i < length calls" "pcs c i \<noteq> Returned" by blast
    with less(2) obtain c1 where c1: "refresher_step api goos calls c c1" by (rule refresher_moves)
    then have "lock_inv calls c1" using less(2) by (auto simp: refresher_step_def intro: refresher_lock)
    from less(1) [OF refresher_work [OF c1 assms(2)] this] obtain k c'
      where "(refresher_step api goos calls ^^ k) c1 c'" "\<forall>i<length calls. pcs c' i = Returned" by blast
    then show ?thesis using relpowp_Suc_I2 [of "refresher_step api goos calls", OF c1] by blast
  qed
qed

lemma relpow_work:
  assumes "(refresher_step api goos calls ^^ k) c c'" "refresh_orders calls"
  shows "k + work_left calls c' \<le> work_left calls c"
  using assms(1)
proof (induction k arbitrary: c')
  case (Suc k)
  then obtain c1 where "(refresher_step api goos calls ^^ k) c c1" "refresher_step api goos calls c1 c'"
    by (auto elim: relpowp_Suc_E)
  with Suc.IH [of c1] refresher_work [OF _ assms(2), of api goos c1 c'] show ?case by simp
qed simp

lemma conc_run_work:
  assumes "conc_run api goos calls c0 c" "refresh_orders calls"
  shows "work_left calls c \<le> work_left calls c0"
  using assms(1)
proof (induction rule: rtranclp_induct)
  case (step y z)
  from step(2) have "work_left calls z \<le> work_left calls y"
  proof (cases rule: conc_step.cases)
    case (refresh i)
    then have "refresher_step api goos calls y z" by (auto simp: refresher_step_def)
    from refresher_work [OF this assms(2)] show ?thesis by simp
  qed (simp_all add: work_left_def)
  with step(3) show ?case by simp
qed simp

section \<open>Properties\<close>

text \<open>Runs of a given schedule.\<close>

fun run_schedule ::
  "'s ipset_api \<Rightarrow> string \<Rightarrow> refresh_call list \<Rightarrow> nat list \<Rightarrow> 's shared \<Rightarrow> 's shared option"
where
  "run_schedule api goos calls [] c = Some c"
| "run_schedule api goos calls (i # s) c =
     (case refresher api goos calls i c of None \<Rightarrow> None | Some c' \<Rightarrow> run_schedule api goos calls s c')"

lemma schedule_run: "run_schedule api goos calls s c = Some c' \<Longrightarrow> conc_run api goos calls c c'"
proof (induction s arbitrary: c)
  case (Cons i s)
  then obtain c1 where "refresher api goos calls i c = Some c1" "run_schedule api goos calls s c1 = Some c'"
    by (auto split: option.splits)
  then show ?case using Cons.IH conc_step.refresh by (metis converse_rtranclp_into_rtranclp)
qed simp

definition sample_calls :: "refresh_call list" where
  "sample_calls =
     [\<lparr>rc_source = ''docker:a'', rc_addresses = [IP6 1 []], rc_order = sorted_order\<rparr>,
      \<lparr>rc_source = ''cni:/b'', rc_addresses = [IP6 2 []], rc_order = sorted_order\<rparr>]"

text \<open>Call 0 has released the lock and not signalled yet when call 1 takes it; call 1 holds it while call
  0 announces.\<close>

definition sample_schedule :: "nat list" where
  "sample_schedule = [0, 0, 0, 0, 0, 0, 1, 1, 0, 1, 1, 0, 1, 1, 0, 1, 1, 1]"

definition sample_overlap :: "ipset_op list shared" where
  "sample_overlap = the (run_schedule ref_ipset ''linux'' sample_calls sample_schedule (init_shared ref_ipset))"

definition sample_looked :: "ipset_op list shared" where
  "sample_looked = (let c = sample_overlap\<lparr>active_ips_changed := tl (active_ips_changed sample_overlap),
       reader_woken := True\<rparr>
     in c\<lparr>reader_seen := active_address_snapshot sorted_order c, reader_woken := False\<rparr>)"

lemma sample_orders: "refresh_orders sample_calls"
  by (simp add: refresh_orders_def sample_calls_def so.map_order_axioms)

lemma sample_overlap_facts:
  "run_schedule ref_ipset ''linux'' sample_calls sample_schedule (init_shared ref_ipset) \<noteq> None"
  "list_all (\<lambda>i. pcs sample_overlap i = Returned) [0..<2]" "store_log sample_overlap = [0, 1]"
  "active_ips_changed sample_overlap = [()]" "source_mu sample_overlap = None"
  by code_simp+

lemma sample_overlap_run: "conc_run ref_ipset ''linux'' sample_calls (init_shared ref_ipset) sample_overlap"
  unfolding sample_overlap_def
  by (rule schedule_run) (use sample_overlap_facts(1) in simp)

text \<open>C3: concurrent refreshes. In every interleaving of the steps of any calls of the refresh with
  each other and with the readers, the published set is at every moment the one that the calls that
  have stored so far give one after the other, in the order in which they stored; when the lock is
  free the same holds of the sources, and when all calls have returned each of them has stored exactly
  once. So no older snapshot is ever stored over a newer one, and no reader sees a state between two
  refreshes.\<close>

theorem concurrent_refreshes_linearize:
  assumes "refresh_orders calls" "conc_run api goos calls (init_shared api) c"
  shows "active_ips c = active_ips (sequential api goos calls (store_log c)) \<and>
    (source_mu c = None \<longrightarrow>
       active_ip_sources c = active_ip_sources (sequential api goos calls (store_log c))) \<and>
    distinct (store_log c) \<and> set (store_log c) \<subseteq> {..<length calls} \<and>
    ((\<forall>i<length calls. pcs c i = Returned) \<longrightarrow> set (store_log c) = {..<length calls})"
proof -
  have inv: "lock_inv calls c" "store_inv api goos calls c"
    using conc_run_inv [OF assms(2,1)] by (simp_all add: conc_inv_def)
  have "i \<in> set (store_log c)" if "pcs c i = Returned" for i
    using inv(1) that by (simp add: lock_inv_def)
  then show ?thesis
    using inv store_log_bound [OF inv(1)] free_lock_clean [OF inv]
    by (auto simp: store_inv_def lock_inv_def)
qed

theorem concurrent_refreshes_linearize_witness:
  "set (store_log sample_overlap) = {0, 1} \<and>
   active_ips sample_overlap = active_ips (sequential ref_ipset ''linux'' sample_calls [0, 1]) \<and>
   active_ip_sources sample_overlap = active_ip_sources (sequential ref_ipset ''linux'' sample_calls [0, 1])"
proof -
  have len: "length sample_calls = 2" by (simp add: sample_calls_def)
  have two: "{..<2} = {0, 1 :: nat}" by auto
  show ?thesis
    using concurrent_refreshes_linearize [OF sample_orders sample_overlap_run] sample_overlap_facts(2,3,5)
    by (auto simp: len list_all_iff)
qed

text \<open>C35: no refresh is lost. When the calls are of different sources and all of them have returned, in
  whatever way they overlapped, an address is in the published set if and only if one of the calls
  reported it.\<close>

theorem overlapping_refreshes_keep_all:
  assumes "ipset api" "refresh_orders calls" "conc_run api goos calls (init_shared api) c"
    and "distinct (map rc_source calls)" "list_all (\<lambda>call. zone_free (rc_addresses call)) calls"
    and "list_all (\<lambda>i. pcs c i = Returned) [0..<length calls]"
  shows "ips_contains api (active_ips c) a \<longleftrightarrow>
    (\<exists>call \<in> set calls. a \<in> accepted_addresses (rc_addresses call))"
proof -
  have inv: "conc_inv api goos calls c" by (rule conc_run_inv [OF assms(3,2)])
  then have lock: "lock_inv calls c" by (simp add: conc_inv_def)
  have "i \<in> set (store_log c) \<longleftrightarrow> i < length calls" for i
    using lock assms(6) store_log_bound [OF lock] by (auto simp: lock_inv_def list_all_iff)
  then have "(\<exists>source. a \<in> last_report calls (store_log c) source) \<longleftrightarrow>
      (\<exists>call \<in> set calls. a \<in> accepted_addresses (rc_addresses call))"
    using assms(4) by (intro last_report_distinct) blast+
  then show ?thesis using conc_view [OF assms(1) inv assms(2,5)] by simp
qed

theorem overlapping_refreshes_keep_all_witness:
  "ips_contains ref_ipset (active_ips sample_overlap) (IP6 1 []) \<and>
   ips_contains ref_ipset (active_ips sample_overlap) (IP6 2 []) \<and>
   \<not> ips_contains ref_ipset (active_ips sample_overlap) (IP6 3 [])"
proof -
  have facts: "distinct (map rc_source sample_calls)"
    "list_all (\<lambda>call. zone_free (rc_addresses call)) sample_calls"
    "list_all (\<lambda>i. pcs sample_overlap i = Returned) [0..<length sample_calls]"
    using sample_overlap_facts(2) by (simp_all add: sample_calls_def zone_free_def numeral_2_eq_2)
  note view = overlapping_refreshes_keep_all [OF ref.ipset_axioms sample_orders sample_overlap_run facts]
  show ?thesis unfolding view by (simp add: sample_calls_def accepted_addresses_def) code_simp
qed

text \<open>C8: no change goes unnoticed. The channel of changes has room for one signal and a send to it never
  waits; still, whenever no signal is in it, the reader is not between a signal and its snapshot, and no
  call is under way, the last snapshot of the reader is the current state of all sources, and that is
  the state the calls give one after the other.\<close>

theorem no_change_goes_unnoticed:
  assumes "refresh_orders calls" "conc_run api goos calls (init_shared api) c"
    and "active_ips_changed c = []" "\<not> reader_woken c"
    and "list_all (\<lambda>i. pcs c i = Called \<or> pcs c i = Returned) [0..<length calls]"
  shows "reader_seen c = sorted_list_of_set (source_union (active_ip_sources c)) \<and>
    active_ip_sources c = active_ip_sources (sequential api goos calls (store_log c))"
proof -
  have inv: "lock_inv calls c" "store_inv api goos calls c" "signal_inv c"
    using conc_run_inv [OF assms(2,1)] by (simp_all add: conc_inv_def)
  have pcs: "pcs c i = Called \<or> pcs c i = Returned" for i
    using inv(1) assms(5) by (cases "i < length calls") (auto simp: lock_inv_def list_all_iff)
  have idle: "\<not> signal_pending (pcs c i)" "\<not> wrote (pcs c i)" for i
    using pcs [of i] by auto
  with assms(3,4) inv show ?thesis by (simp add: signal_inv_def store_inv_def)
qed

lemma sample_looked_run: "conc_run ref_ipset ''linux'' sample_calls (init_shared ref_ipset) sample_looked"
proof -
  let ?c = "sample_overlap\<lparr>active_ips_changed := tl (active_ips_changed sample_overlap), reader_woken := True\<rparr>"
  have "\<not> reader_woken sample_overlap" by code_simp
  then have "conc_step ref_ipset ''linux'' sample_calls sample_overlap ?c"
    using sample_overlap_facts(4) by (intro wake) simp_all
  moreover have "conc_step ref_ipset ''linux'' sample_calls ?c sample_looked"
    unfolding sample_looked_def Let_def
    using sample_overlap_facts(5) by (intro look so.map_order_axioms) simp
  ultimately show ?thesis using sample_overlap_run by (meson rtranclp.rtrancl_into_rtrancl)
qed

theorem no_change_goes_unnoticed_witness:
  "reader_seen sample_looked = sorted_list_of_set (source_union (active_ip_sources sample_looked)) \<and>
   reader_seen sample_looked = [IP6 1 [], IP6 2 []]"
proof -
  have facts: "active_ips_changed sample_looked = []" "\<not> reader_woken sample_looked"
    "list_all (\<lambda>i. pcs sample_looked i = Called \<or> pcs sample_looked i = Returned) [0..<length sample_calls]"
    "reader_seen sample_looked = [IP6 1 [], IP6 2 []]"
    by code_simp+
  show ?thesis
    using no_change_goes_unnoticed [OF sample_orders sample_looked_run facts(1-3)] facts(4) by blast
qed

text \<open>C36: the refreshes return. From every state of a run the calls can all run to their end, whatever
  the lock's holder is doing, and the steps they take are at most eight for each call and one for each
  address, however they are interleaved: there is no deadlock and no step waits for a reader of the
  channels.\<close>

theorem refreshes_return:
  assumes "refresh_orders calls" "conc_run api goos calls (init_shared api) c"
  shows "(\<exists>k c'. (refresher_step api goos calls ^^ k) c c' \<and> (\<forall>i<length calls. pcs c' i = Returned)) \<and>
    ((refresher_step api goos calls ^^ n) c c2 \<longrightarrow>
       n \<le> (\<Sum>i<length calls. 8 + length (rc_addresses (calls ! i))))"
proof -
  have "lock_inv calls c" using conc_run_inv [OF assms(2,1)] by (simp add: conc_inv_def)
  moreover have "n \<le> work_left calls c" if "(refresher_step api goos calls ^^ n) c c2"
    using relpow_work [OF that assms(1)] by simp
  moreover have "work_left calls c \<le> (\<Sum>i<length calls. 8 + length (rc_addresses (calls ! i)))"
    using conc_run_work [OF assms(2,1)] by (simp add: work_left_def init_shared_def active_state.defs)
  ultimately show ?thesis using refreshers_finish [OF _ assms(1)] by fastforce
qed

theorem refreshes_return_witness:
  "\<exists>k c'. (refresher_step ref_ipset ''linux'' sample_calls ^^ k) (init_shared ref_ipset) c' \<and>
     pcs c' 0 = Returned \<and> pcs c' 1 = Returned"
proof -
  have len: "length sample_calls = 2" by (simp add: sample_calls_def)
  obtain k c' where "(refresher_step ref_ipset ''linux'' sample_calls ^^ k) (init_shared ref_ipset) c'"
    "\<forall>i<2. pcs c' i = Returned"
    using refreshes_return [OF sample_orders rtranclp.rtrancl_refl, of ref_ipset "''linux''" 0 "init_shared ref_ipset"]
    by (auto simp: len)
  moreover from this(2) have "pcs c' 0 = Returned" "pcs c' 1 = Returned" by auto
  ultimately show ?thesis by blast
qed

end
