(* ===== verification/Spec2Isabelle.thy ===== *)
theory Spec2Isabelle
  imports Runtime_Linux Bsd_Shutdown Main_App Concurrent_Refresh
begin

text \<open>
  A verification development for \<^emph>\<open>ndpresponder\<close>, an IPv6 Neighbor Discovery responder (Linux) and
  proxy manager (macOS and the BSDs) in Go.

  \<^bold>\<open>The program.\<close> The \<open>Before\<close> hook of \<open>main.go\<close> turns the command line into package variables: the
  static targets, the names of container networks and the candidates for the uplink. \<open>runResponder\<close>
  then runs until the context is cancelled. On Linux (\<open>runtime_linux.go\<close>) it opens a packet socket on
  the chosen interface, announces its addresses, answers the neighbor solicitations captured there and
  announces new container addresses. On macOS and the BSDs (\<open>runtime_bsd.go\<close>) it keeps proxy entries in
  the kernel's neighbor table, by the tool \<open>ndp\<close>. The Docker and CNI collectors run beside it and
  write the addresses they find to a shared store.

  \<^bold>\<open>The theories\<close>, in the order of their dependencies:
  \<^item> \<open>Prelude\<close>: errors as values, buffered channels as lists, lemmas on lists and association lists.
  \<^item> \<open>GoStrings\<close>, \<open>Netip\<close>, \<open>Netip_Text\<close>, \<open>Netip_Roundtrip\<close>: what the program uses of \<open>strings\<close> and
    \<open>net/netip\<close>: trimming, fields, addresses as words, prefixes, parsing and printing, with the proof that
    every printed address is parsed back.
  \<^item> \<open>Ip_Set\<close>: the contract of \<open>netipx.IPSet\<close> (locale \<open>ipset\<close>), an executable instance, and the contract of a
    published view (locale \<open>published_view\<close>) that both stores below meet.
  \<^item> \<open>Ip_Policy\<close>: \<open>ipv6_policy.go\<close>. \<open>Readiness\<close>: \<open>readiness.go\<close>.
  \<^item> \<open>Static_Targets\<close>: parsing, the target file and its reload (\<open>main.go\<close>). The package variables are the
    record \<open>static_state\<close>.
  \<^item> \<open>Active_Ips\<close>: the store of runtime addresses (\<open>active_ips.go\<close>) as the record \<open>active_state\<close>; the
    order of ranging over a Go map is a parameter (locale \<open>map_order\<close>). \<open>Concurrent_Refresh\<close>: the same
    refresh as a thread, one step for every access to the shared variables, in any interleaving
    with other refreshes and with the readers.
  \<^item> \<open>Docker\<close>, \<open>Cni\<close>: the collectors (\<open>docker.go\<close>, \<open>cni.go\<close>).
  \<^item> \<open>Ifname\<close>, \<open>Hostinfo\<close>, \<open>Responder\<close>: the candidates for the uplink (\<open>ifname.go\<close>), the gateway of a
    candidate (\<open>hostinfo.go\<close>) and the choice between them (\<open>responder.go\<close>), with the open packet handles as
    state.
  \<^item> \<open>Ndp_Frames\<close>: the frames, the packet filter and the capture (\<open>ndp.go\<close>).
  \<^item> \<open>Announce\<close>, \<open>Runtime_Linux\<close>: the handlers and the state machine of \<open>runtime_linux.go\<close>; the record
    \<open>responder\<close> is its state, \<open>responder_step\<close> one stretch between two points where another goroutine can
    act.
  \<^item> \<open>Ndp_Proxy\<close>, \<open>Bsd_Proxy\<close>, \<open>Bsd_Kernel\<close>, \<open>Runtime_Bsd\<close>: the parser of the neighbor table
    (\<open>ndp_proxy.go\<close>), the proxy entries (\<open>bsd_ndp_proxy.go\<close>, \<open>ifroute_bsd.go\<close>, \<open>bsd_command.go\<close>) over the
    contract of the tool (locale \<open>ndp_tool\<close>), a kernel that meets it, and the state machine of
    \<open>runtime_bsd.go\<close>. \<open>Bsd_Shutdown\<close>: the end of a session, over a tool that works (locale
    \<open>reliable_ndp_tool\<close>).
  \<^item> \<open>Main_App\<close>: the \<open>Before\<close> hook. This theory: the hand-over to the responder and the properties that span the
    program.

  \<^bold>\<open>What the theorems show.\<close> The stores refine abstract specifications: the published set of runtime
  addresses answers for the latest reports of all sources, the static set for the last accepted target
  file. A Linux responder only sends frames it has a reason for, never leaks a packet handle, never
  shows readiness before it is ready, and ends without a panic; its frames are valid neighbor
  discovery messages, except for the answer to a duplicate address probe. With static targets only, each
  frame is traced back to a text of the command line or of the target file. A BSD session never touches a neighbor entry it did not make and, when the
  tool works, ends with the table as it found it. Concurrent refreshes of the address store look as if
  they ran one after the other, so the state machines of the two platforms may take a refresh
  for one step; they never deadlock, and no change of the addresses goes unnoticed. The choice of
  the interface, the gateway, the directories and the announcements are functional specifications,
  errors included; the parser of the neighbor table is specified for any output of the tool.

  \<^bold>\<open>Conditions.\<close> The theorems on the runtime addresses are for reports without zones. The exact list of announced hosts is for a serializer and a socket that do not
  fail; what happens otherwise is stated separately (\<open>failed_announcements_are_retried\<close>).

  \<^bold>\<open>Bounds.\<close> Channels are bounded by the buffers of the code (64, 64 and 1). Addresses and flags are words of
  their width. All functions are total; the retries of \<open>hostinfo.go\<close> are recursion on the attempts left, so
  no fuel is needed. Concurrent refreshes
  take at most eight steps each and one for each address.

  \<^bold>\<open>Parameters.\<close> The libraries the program calls: \<open>netipx\<close>, the Docker client, \<open>gopacket\<close> (serializing and decoding), the
  answers of netlink, of the file system and of the BSD tools. What is relied on is stated in the
  locales and has an executable instance.

  \<^bold>\<open>Not modelled.\<close> Logging, which has no effect; reading the command line (the \<open>cli\<close> library); the delivery of
  signals (\<open>signals_unix.go\<close>), which is a cancellation at any point; the duration of timers, since a tick
  may come at any time; the overlap of a handler of the main loop with the goroutines beside it, where the
  handler reads the published sets once; changes that the kernel or another process makes to the
  neighbor table of a BSD host during a session, so that the theorems on sessions speak of what the
  program does to the table; the agent and the scripts, which are not Go.
\<close>

section \<open>Other platforms\<close>

text \<open>\<open>runResponder\<close> of \<open>runtime_unsupported.go\<close>.\<close>

definition run_responder_unsupported :: "error option" where
  "run_responder_unsupported =
     Some (Errorf ''ndpresponder supports packet responses on Linux and proxy NDP entries on macOS or supported BSD hosts'' [] None)"

section \<open>The Action hook\<close>

text \<open>
  \<open>runResponder\<close> is called with the package variables the preflight left. \<open>linux_action\<close> and
  \<open>bsd_action\<close> are the configuration and the initial state of the two platforms' state machines.
\<close>

definition linux_config ::
  "'s ipset_api \<Rightarrow> serializer \<Rightarrow> (bytes \<Rightarrow> error + decoded) \<Rightarrow> packet_env \<Rightarrow> 's app_state \<Rightarrow> 's config"
where
  "linux_config api ser decode packet ap =
     \<lparr>cf_api = api, cf_ser = ser, cf_decode = decode, cf_packet = packet,
      cf_candidates = ap_candidates ap, cf_docker = ap_docker ap, cf_cni = ap_cni ap,
      cf_cni_dir = ap_cni_dir ap, cf_ready = ap_ready_file ap\<rparr>"

definition linux_action :: "'s ipset_api \<Rightarrow> handle_world \<Rightarrow> 's app_state \<Rightarrow> 's responder" where
  "linux_action api handles ap =
     \<lparr>rs_pc = Starting, rs_rt = None, rs_static = ap_static ap, rs_active = init_active api,
      rs_files = ap_files ap, rs_handles = handles, rs_wire = \<lparr>wr_count = 0, wr_sent = []\<rparr>,
      rs_capture = capture_start, rs_announced = {}, rs_cancelled = False\<rparr>"

definition bsd_config_of :: "'s ipset_api \<Rightarrow> string \<Rightarrow> 'w bsd_env \<Rightarrow> 's app_state \<Rightarrow> ('s, 'w) bsd_config" where
  "bsd_config_of api goos env ap =
     \<lparr>bc_api = api, bc_goos = goos, bc_env = env, bc_candidates = ap_candidates ap,
      bc_docker = ap_docker ap, bc_cni = ap_cni ap, bc_cni_dir = ap_cni_dir ap, bc_ready = ap_ready_file ap\<rparr>"

definition bsd_action :: "'s ipset_api \<Rightarrow> 'w \<Rightarrow> 's app_state \<Rightarrow> ('s, 'w) bsd_state" where
  "bsd_action api w ap =
     \<lparr>bs_pc = BStarting, bs_responder = None, bs_static = ap_static ap, bs_active = init_active api,
      bs_files = ap_files ap, bs_owned = {}, bs_world = w, bs_cancelled = False\<rparr>"

lemma linux_action_start:
  assumes "app_before api env opts ap0 = (None, ap)" "world_ok handles"
  shows "responder_start (hw_open handles) (linux_config api ser decode packet ap) (linux_action api handles ap)"
  using app_before_ok [OF assms(1)] assms(2)
  by (simp add: responder_start_def linux_config_def linux_action_def init_active_inv)

section \<open>A process with static targets only\<close>

lemma no_networks_refresh:
  "snd (docker_refresh_configured_networks api goos ord info [] st) = st"
  by (simp add: docker_refresh_configured_networks_def refresh_docker_networks_def)

lemma static_only_step:
  assumes "responder_step cfg st st'" "cf_docker cfg = []" "cf_cni cfg = []"
    and "rs_active st = init_active (cf_api cfg)"
  shows "rs_active st' = init_active (cf_api cfg)"
  using assms
proof (induction rule: responder_step.induct)
  case (new_ip st net nonce)
  then show ?case by (simp add: on_new_active_ip_def init_active_def)
next
  case (env_cni st ord dirs read_dir)
  then have "dirs = []" by (simp add: cni_lease_directories_def)
  with env_cni show ?case by (simp add: cni_refresh_all_def)
qed (auto simp: start_clear_def start_prepare_eq start_docker_def start_cni_def start_announce_def
  start_ready_def on_target_update_def on_solicitation_def stop_responder_def Let_def no_networks_refresh
  split: prod.split sum.split option.split list.split)

lemma static_only_run:
  assumes "responder_run cfg st st'" "cf_docker cfg = []" "cf_cni cfg = []"
    and "rs_active st = init_active (cf_api cfg)"
  shows "rs_active st' = init_active (cf_api cfg)"
  using assms(1,4) by (induction rule: rtranclp_induct) (auto intro: static_only_step assms)

lemma init_answers_nothing:
  assumes "ipset api"
  shows "\<not> ips_contains api (active_ips (init_active api)) a"
  using address_store.init_published [OF address_store.intro [OF assms so.map_order_axioms]]
  by (simp add: published_def init_active_def source_union_def)

text \<open>
  What a target in force covers is what some configured text asks for: a host target is the address
  of a text that asks for a single address, and a covered address agrees with the text's.
\<close>

lemma in_force_text:
  assumes "app_before api env opts ap0 = (None, ap)"
    and "targets_from (static_cli_targets (ap_static ap)) (trim_space (opt_target_file opts)) files st"
    and "p \<in> set (static_targets st)" "pfx_contains p a"
  shows "\<exists>text w n u. configured_text opts files text \<and> parse_static_target text = Inr p \<and>
    text_target text w n \<and> pfx_bits p = int n \<and> a = IP6 u [] \<and> drop_bit (128 - n) u = drop_bit (128 - n) w"
proof -
  obtain s where s: "configured_text opts files s" "parse_static_target s = Inr p"
    using targets_from_texts [OF assms(1-3)] .
  obtain w n u where "text_target s w n" "pfx_bits p = int n" "a = IP6 u []"
    "drop_bit (128 - n) u = drop_bit (128 - n) w"
    using parsed_text_covers [OF s(2) assms(4)] .
  with s show ?thesis by blast
qed

lemma covered_host: "static_target p \<Longrightarrow> pfx_bits p = 128 \<Longrightarrow> pfx_contains p (pfx_addr p)"
  by (simp add: static_host_contains)

text \<open>C11: end to end, for a process that watches no container network. After a successful preflight,
  every frame a run sends is for a target the user configured, where \<open>files\<close> is what the file system
  gives at the reloads: there is a text, either an option of the command line or a line of a content the
  target file had at the preflight or at a reload, that asks for the first \<open>n\<close> bits of an address
  and whose target is in force at that step, and the frame is the advertisement of just this
  address, when all 128 bits are asked for, or the answer to a solicitation for an address without
  zone that agrees with it in those \<open>n\<close> bits.\<close>

theorem static_process_speaks_for_its_targets:
  assumes "ipset api" "app_before api env opts ap0 = (None, ap)" "world_ok handles"
    and "opt_docker opts = []" "opt_cni opts = []"
    and "cfg = linux_config api ser decode packet ap" "st0 = linux_action api handles ap"
    and "(observed_step cfg files)\<^sup>*\<^sup>* st0 st" "bs \<in> set (wr_sent (rs_wire st))"
  shows "\<exists>s s' text w n p. (observed_step cfg files)\<^sup>*\<^sup>* st0 s \<and> observed_step cfg files s s' \<and>
    configured_text opts (insert (he_open env) files) text \<and> text_target text w n \<and>
    parse_static_target text = Inr p \<and>
    p \<in> set (static_targets (rs_static s)) \<union> set (static_targets (rs_static s')) \<and>
    (n = 128 \<and> advert_for ser (responder_info s) (IP6 w []) bs \<or>
     (\<exists>ns \<in> set (cap_queue (rs_capture s)). \<exists>u. target_ip ns = IP6 u [] \<and>
        drop_bit (128 - n) u = drop_bit (128 - n) w \<and> answer_for ser (responder_info s) ns bs))"
proof -
  let ?files = "insert (he_open env) files"
  have start: "responder_start (hw_open handles) cfg st0"
    unfolding assms(6,7) using assms(2,3) by (rule linux_action_start)
  have cfg: "cf_api cfg = api" "cf_ser cfg = ser" "cf_docker cfg = []" "cf_cni cfg = []"
    using app_before_ok [OF assms(2)] by (simp_all add: assms(4-6) linux_config_def)
  have "bs \<notin> set (wr_sent (rs_wire st0))" by (simp add: assms(7) linux_action_def)
  then obtain s s' where s: "(observed_step cfg files)\<^sup>*\<^sup>* st0 s" "observed_step cfg files s s'" "justified cfg s s' bs"
    using sent_in_run [OF assms(8) observed_responder_step [of cfg files] start_inv [OF start] assms(9)] by blast
  have s': "(observed_step cfg files)\<^sup>*\<^sup>* st0 s'" using s(1,2) by (rule rtranclp.rtrancl_into_rtrancl)
  have run: "responder_run cfg st0 s" "responder_run cfg st0 s'" using s(1) s' by (auto intro: observed_is_run)
  have "rs_active s = init_active api"
    using static_only_run [OF run(1) cfg(3,4)] by (simp add: cfg(1) assms(7) linux_action_def)
  then have active: "source_union (active_ip_sources (rs_active s)) = {}" "new_active_ip (rs_active s) = []"
    "\<And>a. \<not> ips_contains api (active_ips (rs_active s)) a"
    using init_answers_nothing [OF assms(1)] by (simp_all add: init_active_def source_union_def)
  have inv: "static_inv api (rs_static s)" "static_inv api (rs_static s')"
    using responder_run_inv [OF _ start_inv [OF start]] run by (auto simp: responder_inv_def data_inv_def cfg)
  have "targets_from (static_cli_targets (ap_static ap)) (trim_space (opt_target_file opts)) ?files (rs_static st0)"
    using app_before_targets_from [OF assms(2), of ?files] by (simp add: assms(7) linux_action_def)
  then have "targets_from (static_cli_targets (ap_static ap)) (trim_space (opt_target_file opts)) ?files (rs_static q)"
    if "q \<in> {s, s'}" for q
    using observed_targets [OF observed_more] s(1) s' that by blast
  then have texts: "\<exists>text w n u. configured_text opts ?files text \<and> parse_static_target text = Inr p \<and>
      text_target text w n \<and> pfx_bits p = int n \<and> a = IP6 u [] \<and> drop_bit (128 - n) u = drop_bit (128 - n) w"
    if "p \<in> set (static_targets (rs_static q))" "pfx_contains p a" "q \<in> {s, s'}" for p a q
    using in_force_text [OF assms(2)] that by blast
  from s(3) consider
    (host) ip where "ip \<in> static_hosts (static_targets (rs_static s'))" "advert_for ser (responder_info s) ip bs"
    | (answer) ns ts where "ns \<in> set (cap_queue (rs_capture s))" "answer_for ser (responder_info s) ns bs"
      "target_subnets (rs_static s) = Some ts" "ips_contains api ts (target_ip ns)"
    by (auto simp: justified_def cfg active)
  then show ?thesis
  proof cases
    case host
    then obtain p where p: "p \<in> set (static_targets (rs_static s'))" "pfx_bits p = 128" "ip = pfx_addr p"
      by (auto simp: static_hosts_iff)
    with inv(2) have "pfx_contains p ip" by (auto simp: static_inv_def covered_host)
    from texts [OF p(1) this] p(2) obtain s1 w u where t: "configured_text opts ?files s1"
      "parse_static_target s1 = Inr p" "text_target s1 w 128" "ip = IP6 u []" "u = w"
      by auto
    with host(2) s(1,2) p(1) show ?thesis by blast
  next
    case answer
    then obtain p where p: "p \<in> set (static_targets (rs_static s))" "pfx_contains p (target_ip ns)"
      using ipset.static_set_members [OF assms(1) inv(1)]
      by (auto simp: current_static_target_set_def current_static_targets_def)
    from texts [OF p] answer(1,2) s(1,2) p(1) show ?thesis by blast
  qed
qed

definition sample_preflight :: "ipset_op list app_state" where
  "sample_preflight = snd (app_before ref_ipset sample_env (sample_options 5) sample_app)"

lemma sample_preflight_ok: "app_before ref_ipset sample_env (sample_options 5) sample_app = (None, sample_preflight)"
proof -
  have "fst (app_before ref_ipset sample_env (sample_options 5) sample_app) = None" by code_simp
  then show ?thesis by (metis sample_preflight_def prod.collapse)
qed

definition sample_linux :: "ipset_op list config" where
  "sample_linux = linux_config ref_ipset (\<lambda>ls. Inr [1]) (\<lambda>_. Inl (Environment ''none'')) sample_packet sample_preflight"

definition sample_process :: "ipset_op list responder" where
  "sample_process = linux_action ref_ipset \<lparr>hw_next = 0, hw_open = {}\<rparr> sample_preflight"

text \<open>A start-up never reads the target file, so it is observed with no content at all.\<close>

lemma sample_process_observed:
  "(observed_step sample_linux {})\<^sup>*\<^sup>* sample_process (last (startup sample_linux sample_process))"
  by (rule startup_observed) code_simp

theorem static_process_speaks_for_its_targets_witness:
  "\<exists>text w n. configured_text (sample_options 5) {he_open sample_env} text \<and> text_target text w n"
proof -
  have w: "world_ok \<lparr>hw_next = 0, hw_open = {}\<rparr>" by (simp add: world_ok_def)
  have opts: "opt_docker (sample_options 5) = []" "opt_cni (sample_options 5) = []"
    by (simp_all add: sample_options_def)
  have sent: "[1] \<in> set (wr_sent (rs_wire (last (startup sample_linux sample_process))))" by code_simp
  show ?thesis
    using static_process_speaks_for_its_targets [OF ref.ipset_axioms sample_preflight_ok w opts
        sample_linux_def sample_process_def sample_process_observed sent]
    by blast
qed

text \<open>C17: end to end on macOS and the BSDs. After a successful preflight on such a platform the session
  starts: the check of the prefix lengths at its start cannot refuse what the preflight accepted,
  and in every later state the static targets are single addresses covered by a consistent set.\<close>

theorem bsd_process_is_not_refused:
  assumes "ipset api" "app_before api env opts ap0 = (None, ap)" "he_goos env \<in> set bsd_platforms"
    and "cfg = bsd_config_of api (he_goos env) tools ap"
  shows "bs_pc (bsd_begin cfg ord WriteOk wo (bsd_action api w ap)) = BChecked \<and>
    (bsd_steps cfg (bsd_action api w ap) st \<longrightarrow>
       (\<forall>p \<in> set (static_targets (bs_static st)). pfx_bits p = 128) \<and>
       (static_view api (bs_static st) a \<longleftrightarrow> a \<in> pfx_addr ` set (static_targets (bs_static st))))"
proof -
  let ?st0 = "bsd_action api w ap"
  note ok = app_before_ok [OF assms(2)]
  have hosts: "\<forall>p \<in> set (static_targets (ap_static ap)). pfx_bits p = 128"
    using ok assms(3) by (auto simp: validate_static_targets_for_platform_def list_ex_iff split: if_splits)
  then have begins: "bs_pc (bsd_begin cfg ord WriteOk wo ?st0) = BChecked"
    by (auto simp: bsd_begin_def bsd_action_def clear_responder_ready_file_def current_static_targets_def
        list_ex_iff)
  have "bsd_ready_inv cfg ?st0" by (simp add: bsd_ready_inv_def bsd_action_def)
  moreover have "bsd_stores_inv cfg ?st0"
    using ok hosts by (simp add: bsd_stores_inv_def bsd_action_def assms(4) bsd_config_of_def init_active_inv list_all_iff)
  moreover have "bc_goos cfg \<in> set bsd_platforms" using assms(3,4) by (simp add: bsd_config_of_def)
  ultimately have inv: "bsd_stores_inv cfg st" if "bsd_steps cfg ?st0 st" for st
    using bsd_run_invs that by blast
  have "(\<forall>p \<in> set (static_targets (bs_static st)). pfx_bits p = 128) \<and>
      (static_view api (bs_static st) a \<longleftrightarrow> a \<in> pfx_addr ` set (static_targets (bs_static st)))"
    if run: "bsd_steps cfg ?st0 st"
  proof -
    have bits: "\<forall>p \<in> set (static_targets (bs_static st)). pfx_bits p = 128"
      and si: "static_inv api (bs_static st)"
      using inv [OF run] by (auto simp: bsd_stores_inv_def list_all_iff assms(4) bsd_config_of_def)
    have "pfx_contains p a \<longleftrightarrow> a = pfx_addr p" if "p \<in> set (static_targets (bs_static st))" for p
      using that bits si by (intro static_host_contains) (auto simp: static_inv_def)
    moreover have "static_view api (bs_static st) a \<longleftrightarrow>
        (\<exists>p \<in> set (static_targets (bs_static st)). pfx_contains p a)"
      using ipset.reload_view [OF assms(1) si, of "[]" a] by simp
    ultimately show ?thesis using bits by blast
  qed
  with begins show ?thesis by blast
qed

definition sample_bsd_host :: host_env where
  "sample_bsd_host = sample_env\<lparr>he_goos := ''freebsd''\<rparr>"

theorem bsd_process_is_not_refused_witness:
  "bs_pc (bsd_begin (bsd_config_of ref_ipset ''freebsd'' sample_bsd_env
       (snd (app_before ref_ipset sample_bsd_host (sample_options 5) sample_app))) sorted_order WriteOk WriteOk
     (bsd_action ref_ipset sample_kernel (snd (app_before ref_ipset sample_bsd_host (sample_options 5) sample_app)))) = BChecked"
proof -
  let ?r = "app_before ref_ipset sample_bsd_host (sample_options 5) sample_app"
  have "fst ?r = None" by code_simp
  then have r: "?r = (None, snd ?r)" by (metis prod.collapse)
  have goos: "he_goos sample_bsd_host \<in> set bsd_platforms" by code_simp
  have "he_goos sample_bsd_host = ''freebsd''" by (simp add: sample_bsd_host_def)
  then show ?thesis
    using bsd_process_is_not_refused [OF ref.ipset_axioms r goos refl] by metis
qed

end
